theory Spec2Isabelle
  imports Main
begin

section \<open>Strings\<close>

text \<open>
  A Go string is a sequence of bytes, here a \<open>string\<close> (a \<open>char list\<close>).  The functions of
  package \<open>strings\<close> that the identifier utilities call are modelled on ASCII text: on bytes
  below 128 \<open>strings.TrimSpace\<close> strips tab, line feed, vertical tab, form feed, carriage
  return and space, and \<open>strings.ToUpper\<close> maps \<open>a..z\<close> to \<open>A..Z\<close>.  Beyond
  ASCII both work on decoded runes with the Unicode tables, which is outside this model; the
  theorems about them carry the hypothesis \<open>ascii s\<close>.
\<close>

definition ascii :: "string \<Rightarrow> bool" where
  "ascii s = (\<forall>c \<in> set s. (of_char c :: nat) < 128)"

definition isSpace :: "char \<Rightarrow> bool" where
  "isSpace c = (c = CHR 0x09 \<or> c = CHR 0x0A \<or> c = CHR 0x0B \<or> c = CHR 0x0C
                \<or> c = CHR 0x0D \<or> c = CHR '' '')"

definition TrimSpace :: "string \<Rightarrow> string" where
  "TrimSpace s = rev (dropWhile isSpace (rev (dropWhile isSpace s)))"

definition HasPrefix :: "string \<Rightarrow> string \<Rightarrow> bool" where
  "HasPrefix s p = (length p \<le> length s \<and> take (length p) s = p)"

text \<open>\<open>strings.Split(s, sep)\<close> for a separator of one byte: always at least one part.\<close>

fun Split :: "string \<Rightarrow> char \<Rightarrow> string list" where
  "Split [] sep = [[]]"
| "Split (c # cs) sep =
     (if c = sep then [] # Split cs sep
      else (case Split cs sep of p # ps \<Rightarrow> (c # p) # ps | [] \<Rightarrow> [[c]]))"

text \<open>\<open>strings.ReplaceAll(s, old, "")\<close> for \<open>old\<close> of one byte.\<close>

definition RemoveAll :: "string \<Rightarrow> char \<Rightarrow> string" where
  "RemoveAll s old = filter (\<lambda>c. c \<noteq> old) s"

definition upperByte :: "char \<Rightarrow> char" where
  "upperByte c =
     (let n = (of_char c :: nat) in if 97 \<le> n \<and> n \<le> 122 then char_of (n - 32) else c)"

definition ToUpper :: "string \<Rightarrow> string" where
  "ToUpper s = map upperByte s"

section \<open>Identifier utilities\<close>

text \<open>
  \<open>ParseOrcidID\<close>: both branches of the source return the last part of the split; the slice
  returned by \<open>Split\<close> is never empty, so \<open>parts[len(parts)-1]\<close> is \<open>last parts\<close>.
\<close>

definition ParseOrcidID :: "string \<Rightarrow> string" where
  "ParseOrcidID input0 =
     (let input = TrimSpace input0 in
      if (HasPrefix input ''http://'' \<or> HasPrefix input ''https://'')
         \<and> length (Split input CHR ''/'') > 0
      then last (Split input CHR ''/'')
      else last (Split input CHR ''/''))"

definition FormatOrcidID :: "string \<Rightarrow> string" where
  "FormatOrcidID orcid0 =
     (let orcid = ToUpper (RemoveAll (ParseOrcidID orcid0) CHR ''-'') in
      if length orcid = 16
      then take 4 orcid @ ''-'' @ take 4 (drop 4 orcid) @ ''-'' @ take 4 (drop 8 orcid)
           @ ''-'' @ take 4 (drop 12 orcid)
      else orcid)"

section \<open>Query strings\<close>

text \<open>
  \<open>fmt.Sprintf("%d", n)\<close>: the decimal digits of \<open>n\<close>, with a minus sign for a negative
  number.
\<close>

definition digitChar :: "nat \<Rightarrow> char" where
  "digitChar d = char_of (48 + d)"

fun digits :: "nat \<Rightarrow> string" where
  "digits n = (if n < 10 then [digitChar n] else digits (n div 10) @ [digitChar (n mod 10)])"

declare digits.simps [simp del]

definition Sprintf_d :: "int \<Rightarrow> string" where
  "Sprintf_d n = (if n < 0 then CHR ''-'' # digits (nat (- n)) else digits (nat n))"

text \<open>
  \<open>url.QueryEscape\<close>: the bytes that \<open>shouldEscape\<close> keeps in a query component are the
  ASCII letters and digits and \<open>- _ . ~\<close>; a space becomes \<open>+\<close>, every other byte becomes
  \<open>%XX\<close> with upper-case hexadecimal digits.
\<close>

definition isAlnum :: "char \<Rightarrow> bool" where
  "isAlnum c = (let n = (of_char c :: nat) in
                  (97 \<le> n \<and> n \<le> 122) \<or> (65 \<le> n \<and> n \<le> 90) \<or> (48 \<le> n \<and> n \<le> 57))"

definition shouldEscape :: "char \<Rightarrow> bool" where
  "shouldEscape c =
     (if isAlnum c then False
      else if c = CHR ''-'' \<or> c = CHR ''_'' \<or> c = CHR ''.'' \<or> c = CHR ''~'' then False
      else True)"

definition upperhex :: "nat \<Rightarrow> char" where
  "upperhex d = (if d < 10 then char_of (48 + d) else char_of (55 + d))"

definition escapeByte :: "char \<Rightarrow> string" where
  "escapeByte c =
     (if shouldEscape c
      then (if c = CHR '' '' then ''+''
            else [CHR ''%'', upperhex ((of_char c :: nat) div 16),
                  upperhex ((of_char c :: nat) mod 16)])
      else [c])"

definition QueryEscape :: "string \<Rightarrow> string" where
  "QueryEscape s = concat (map escapeByte s)"

text \<open>
  \<open>url.Values\<close> is a \<open>map[string][]string\<close>: an association list with one entry for each
  key.  \<open>Set\<close> replaces the values of a key by one value.  \<open>Encode\<close> visits the keys in
  sorted order (Go compares strings byte by byte) and joins \<open>key=value\<close> with \<open>&\<close>.
\<close>

type_synonym Values = "(string \<times> string list) list"

fun Set :: "Values \<Rightarrow> string \<Rightarrow> string \<Rightarrow> Values" where
  "Set [] key val = [(key, [val])]"
| "Set ((k, vs) # rest) key val =
     (if k = key then (k, [val]) # rest else (k, vs) # Set rest key val)"

fun Get :: "Values \<Rightarrow> string \<Rightarrow> string list option" where
  "Get [] key = None"
| "Get ((k, vs) # rest) key = (if k = key then Some vs else Get rest key)"

fun strLess :: "string \<Rightarrow> string \<Rightarrow> bool" where
  "strLess [] [] = False"
| "strLess [] (y # ys) = True"
| "strLess (x # xs) [] = False"
| "strLess (x # xs) (y # ys) =
     ((of_char x :: nat) < of_char y \<or> (x = y \<and> strLess xs ys))"

fun insertKey :: "string \<times> string list \<Rightarrow> Values \<Rightarrow> Values" where
  "insertKey kv [] = [kv]"
| "insertKey kv (x # xs) =
     (if strLess (fst kv) (fst x) then kv # x # xs else x # insertKey kv xs)"

fun sortKeys :: "Values \<Rightarrow> Values" where
  "sortKeys [] = []"
| "sortKeys (kv # rest) = insertKey kv (sortKeys rest)"

fun joinAmp :: "string list \<Rightarrow> string" where
  "joinAmp [] = []"
| "joinAmp [x] = x"
| "joinAmp (x # y # ys) = x @ ''&'' @ joinAmp (y # ys)"

definition Encode :: "Values \<Rightarrow> string" where
  "Encode v =
     joinAmp (concat (map (\<lambda>(k, vs). map (\<lambda>val. QueryEscape k @ ''='' @ QueryEscape val) vs)
                          (sortKeys v)))"

section \<open>Client configuration\<close>

text \<open>
  A \<open>time.Duration\<close> counts nanoseconds.  Go's \<open>int\<close> and \<open>time.Duration\<close> have 64
  bits; they are modelled as \<open>int\<close>.  Where the operands come from the caller or from the
  server, in the sum \<open>Start + Rows\<close> of the iterator, the addition is Go's, \<open>addInt\<close>, which
  wraps around.  The retry counter and the backoff are left unbounded: no run brings them to
  wrap (the counter would need \<open>2^63\<close> attempts, the backoff wraps from attempt 96039 on).
\<close>

definition wrapInt :: "int \<Rightarrow> int" where
  "wrapInt x = (x + 9223372036854775808) mod 18446744073709551616 - 9223372036854775808"

definition addInt :: "int \<Rightarrow> int \<Rightarrow> int" where
  "addInt a b = wrapInt (a + b)"

type_synonym Duration = int

definition Second :: Duration where
  "Second = 1000000000"

type_synonym ContentType = string

definition ContentTypeJSON :: ContentType where
  "ContentTypeJSON = ''application/json''"

definition ContentTypeXML :: ContentType where
  "ContentTypeXML = ''application/vnd.orcid+xml''"

definition PublicHost :: string where
  "PublicHost = ''https://pub.orcid.org/v3.0''"

definition DefaultAPIURL :: string where
  "DefaultAPIURL = PublicHost"

definition DefaultTimeout :: Duration where
  "DefaultTimeout = 30 * Second"

definition DefaultMaxRetries :: int where
  "DefaultMaxRetries = 3"

definition DefaultRateLimit :: int where
  "DefaultRateLimit = 10"

text \<open>
  Every error value and panic of the modelled code.  \<open>ContextDone\<close> is \<open>ctx.Err()\<close> after
  \<open>ctx.Done()\<close> has fired; \<open>RetryableStatus\<close> is the error \<open>"HTTP %d: %s"\<close> kept in
  \<open>lastErr\<close>; \<open>HTTPError\<close> is \<open>"HTTP %d: %s - %s"\<close> with the status code, the status text
  and the body; \<open>MaxRetriesExceeded\<close> wraps \<open>lastErr\<close>, which is \<open>nil\<close> when the loop never
  ran; \<open>TickerPanic\<close> is the panic of \<open>time.NewTicker\<close> on a non-positive period.
\<close>

datatype error =
    MissingBearerToken
  | ContextDone
  | RequestError string
  | TransportError string
  | RetryableStatus int string
  | HTTPError int string string
  | MaxRetriesExceeded "error option"
  | ReadError string
  | DecodeError string
  | UnsupportedContentType string
  | TickerPanic

record Ticker =
  period :: Duration

definition NewTicker :: "Duration \<Rightarrow> error + Ticker" where
  "NewTicker d = (if d \<le> 0 then Inl TickerPanic else Inr \<lparr>period = d\<rparr>)"

text \<open>
  The \<open>http.Client\<close> of the source is the transport of the environment below, so the
  record has no field for it and \<open>WithHTTPClient\<close> is not among the options.
  \<open>WithAPIURL\<close> is the one of \<open>orcid/client.go\<close>, which trims every trailing slash.
\<close>

record Client =
  apiURL :: string
  timeout :: Duration
  maxRetries :: int
  rateLimit :: int
  userAgent :: string
  contentType :: ContentType
  rateLimiter :: "Ticker option"
  bearerToken :: string

datatype ClientOption =
    WithAPIURL string
  | WithTimeout Duration
  | WithMaxRetries int
  | WithRateLimit int
  | WithUserAgent string
  | WithContentType ContentType
  | WithBearerToken string

definition TrimRight :: "string \<Rightarrow> char \<Rightarrow> string" where
  "TrimRight s cutset = rev (dropWhile (\<lambda>c. c = cutset) (rev s))"

fun applyOption :: "ClientOption \<Rightarrow> Client \<Rightarrow> error + Client" where
  "applyOption (WithAPIURL url) c = Inr (c\<lparr>apiURL := TrimRight url CHR ''/''\<rparr>)"
| "applyOption (WithTimeout t) c = Inr (c\<lparr>timeout := t\<rparr>)"
| "applyOption (WithMaxRetries n) c = Inr (c\<lparr>maxRetries := n\<rparr>)"
| "applyOption (WithRateLimit requestsPerSecond) c =
     (let c1 = c\<lparr>rateLimit := requestsPerSecond\<rparr> in
      if requestsPerSecond > 0
      then (case NewTicker (Second div requestsPerSecond) of
              Inl e \<Rightarrow> Inl e
            | Inr t \<Rightarrow> Inr (c1\<lparr>rateLimiter := Some t\<rparr>))
      else Inr c1)"
| "applyOption (WithUserAgent ua) c = Inr (c\<lparr>userAgent := ua\<rparr>)"
| "applyOption (WithContentType ct) c = Inr (c\<lparr>contentType := ct\<rparr>)"
| "applyOption (WithBearerToken token) c = Inr (c\<lparr>bearerToken := token\<rparr>)"

fun applyOptions :: "ClientOption list \<Rightarrow> Client \<Rightarrow> error + Client" where
  "applyOptions [] c = Inr c"
| "applyOptions (opt # opts) c =
     (case applyOption opt c of Inl e \<Rightarrow> Inl e | Inr c1 \<Rightarrow> applyOptions opts c1)"

definition defaultClient :: Client where
  "defaultClient =
     \<lparr>apiURL = DefaultAPIURL, timeout = DefaultTimeout, maxRetries = DefaultMaxRetries,
      rateLimit = DefaultRateLimit, userAgent = [], contentType = ContentTypeJSON,
      rateLimiter = None, bearerToken = []\<rparr>"

definition NewClient :: "ClientOption list \<Rightarrow> error + Client" where
  "NewClient opts =
     (case applyOptions opts defaultClient of
        Inl e \<Rightarrow> Inl e
      | Inr c \<Rightarrow>
          if rateLimit c > 0
          then (case NewTicker (Second div rateLimit c) of
                  Inl e \<Rightarrow> Inl e
                | Inr t \<Rightarrow> Inr (c\<lparr>rateLimiter := Some t\<rparr>))
          else Inr c)"

section \<open>The request executor\<close>

text \<open>
  What a call does outside the program is made explicit.  The \<open>world\<close> is threaded through
  every operation: \<open>trace\<close> lists, in order, the pacing permits received, the backoff waits
  completed and the requests handed to the transport; \<open>clock\<close> counts the times the
  cancellation signal has been consulted.  The environment \<open>env\<close> holds what the program
  does not decide: whether \<open>ctx.Done()\<close> wins the \<open>select\<close> at a given consultation, whether
  \<open>http.NewRequestWithContext\<close> accepts a method and URL, what \<open>httpClient.Do\<close> returns
  for the \<open>n\<close>-th request sent (an error text, or a response), and the decoders of
  \<open>encoding/json\<close> and \<open>encoding/xml\<close>.
\<close>

record Request =
  Method :: string
  URL :: string
  UserAgent :: string
  Accept :: string
  Authorization :: string

text \<open>
  \<open>BodyErr\<close> is the error of \<open>io.ReadAll(resp.Body)\<close>, if any; \<open>Body\<close> holds the bytes
  read.
\<close>

record Response =
  StatusCode :: int
  Status :: string
  Body :: string
  BodyErr :: "string option"

datatype event = Permit | Backoff Duration | Send Request

record world =
  clock :: nat
  trace :: "event list"

record OrcidIdentifier =
  URI :: string
  Path :: string
  Host :: string

record SearchRecord =
  OrcidIdentifier :: "OrcidIdentifier option"

text \<open>
  \<open>SearchResult\<close>: the field \<open>Start\<close> of the source is \<open>ResultStart\<close> here, since
  \<open>SearchParams\<close> has a field of that name too.  An element of \<open>Results\<close> is a pointer,
  which may be \<open>nil\<close>.
\<close>

record SearchResult =
  NumFound :: int
  ResultStart :: int
  NumRows :: int
  Results :: "SearchRecord option list"

record env =
  ctx_done :: "nat \<Rightarrow> bool"
  newRequestErr :: "string \<Rightarrow> string \<Rightarrow> string option"
  httpDo :: "nat \<Rightarrow> Request \<Rightarrow> string + Response"
  jsonUnmarshal :: "string \<Rightarrow> string + SearchResult"
  xmlUnmarshal :: "string \<Rightarrow> string + SearchResult"

fun isSend :: "event \<Rightarrow> bool" where
  "isSend (Send r) = True"
| "isSend Permit = False"
| "isSend (Backoff d) = False"

fun isPermit :: "event \<Rightarrow> bool" where
  "isPermit Permit = True"
| "isPermit (Send r) = False"
| "isPermit (Backoff d) = False"

text \<open>The number of physical attempts so far.\<close>

definition sends :: "world \<Rightarrow> nat" where
  "sends w = length (filter isSend (trace w))"

definition emit :: "event \<Rightarrow> world \<Rightarrow> world" where
  "emit ev w = w\<lparr>trace := trace w @ [ev]\<rparr>"

text \<open>
  One consultation of the cancellation signal: \<open>True\<close> when the \<open>ctx.Done()\<close> case is
  taken.
\<close>

definition selectDone :: "env \<Rightarrow> world \<Rightarrow> bool \<times> world" where
  "selectDone e w = (ctx_done e (clock w), w\<lparr>clock := Suc (clock w)\<rparr>)"

text \<open>\<open>select { case <-c.rateLimiter.C: case <-ctx.Done(): return nil, ctx.Err() }\<close>\<close>

definition waitPermit :: "env \<Rightarrow> world \<Rightarrow> bool \<times> world" where
  "waitPermit e w =
     (case selectDone e w of
        (True, w1) \<Rightarrow> (True, w1)
      | (False, w1) \<Rightarrow> (False, emit Permit w1))"

text \<open>\<open>select { case <-time.After(backoff): case <-ctx.Done(): return nil, ctx.Err() }\<close>\<close>

definition waitBackoff :: "env \<Rightarrow> Duration \<Rightarrow> world \<Rightarrow> bool \<times> world" where
  "waitBackoff e backoff w =
     (case selectDone e w of
        (True, w1) \<Rightarrow> (True, w1)
      | (False, w1) \<Rightarrow> (False, emit (Backoff backoff) w1))"

definition newRequest :: "Client \<Rightarrow> string \<Rightarrow> string \<Rightarrow> Request" where
  "newRequest c method url =
     \<lparr>Method = method, URL = url, UserAgent = userAgent c, Accept = contentType c,
      Authorization = ''Bearer '' @ bearerToken c\<rparr>"

definition Do :: "env \<Rightarrow> Request \<Rightarrow> world \<Rightarrow> (string + Response) \<times> world" where
  "Do e req w = (httpDo e (sends w) req, emit (Send req) w)"

text \<open>
  The loop \<open>for attempt := 0; attempt <= c.maxRetries; attempt++\<close> of \<open>doRequest\<close>, from
  the iteration \<open>attempt\<close> on, with the current \<open>lastErr\<close>.
\<close>

function retryLoop ::
  "env \<Rightarrow> Client \<Rightarrow> string \<Rightarrow> string \<Rightarrow> nat \<Rightarrow> error option \<Rightarrow> world
    \<Rightarrow> (error + Response) \<times> world" where
  "retryLoop e c method url attempt lastErr w =
     (if int attempt \<le> maxRetries c then
        (case (if attempt > 0
               then waitBackoff e (int (attempt * attempt) * Second) w
               else (False, w)) of
           (True, w1) \<Rightarrow> (Inl ContextDone, w1)
         | (False, w1) \<Rightarrow>
             (case newRequestErr e method url of
                Some msg \<Rightarrow> (Inl (RequestError msg), w1)
              | None \<Rightarrow>
                  (case Do e (newRequest c method url) w1 of
                     (Inl msg, w2) \<Rightarrow>
                       retryLoop e c method url (Suc attempt) (Some (TransportError msg)) w2
                   | (Inr resp, w2) \<Rightarrow>
                       if StatusCode resp = 200 then (Inr resp, w2)
                       else if StatusCode resp = 429 \<or> StatusCode resp = 408
                               \<or> (StatusCode resp \<ge> 500 \<and> StatusCode resp < 600)
                       then retryLoop e c method url (Suc attempt)
                              (Some (RetryableStatus (StatusCode resp) (Status resp))) w2
                       else (Inl (HTTPError (StatusCode resp) (Status resp) (Body resp)), w2))))
      else (Inl (MaxRetriesExceeded lastErr), w))"
  by pat_completeness auto
termination
  by (relation "measure (\<lambda>(e, c, method, url, attempt, lastErr, w).
                   nat (maxRetries c + 1 - int attempt))") auto

declare retryLoop.simps [simp del]

definition doRequest ::
  "env \<Rightarrow> Client \<Rightarrow> string \<Rightarrow> string \<Rightarrow> world \<Rightarrow> (error + Response) \<times> world" where
  "doRequest e c method url w =
     (if bearerToken c = [] then (Inl MissingBearerToken, w)
      else
        (case (if rateLimiter c \<noteq> None then waitPermit e w else (False, w)) of
           (True, w1) \<Rightarrow> (Inl ContextDone, w1)
         | (False, w1) \<Rightarrow> retryLoop e c method url 0 None w1))"

definition ReadAll :: "Response \<Rightarrow> error + string" where
  "ReadAll resp = (case BodyErr resp of Some msg \<Rightarrow> Inl (ReadError msg) | None \<Rightarrow> Inr (Body resp))"

definition unmarshalResponse :: "env \<Rightarrow> Client \<Rightarrow> string \<Rightarrow> error + SearchResult" where
  "unmarshalResponse e c data =
     (if contentType c = ContentTypeJSON
      then (case jsonUnmarshal e data of Inl msg \<Rightarrow> Inl (DecodeError msg) | Inr v \<Rightarrow> Inr v)
      else if contentType c = ContentTypeXML
      then (case xmlUnmarshal e data of Inl msg \<Rightarrow> Inl (DecodeError msg) | Inr v \<Rightarrow> Inr v)
      else Inl (UnsupportedContentType (contentType c)))"

definition GetRecordRaw ::
  "env \<Rightarrow> Client \<Rightarrow> string \<Rightarrow> world \<Rightarrow> (error + string) \<times> world" where
  "GetRecordRaw e c orcidID w =
     (let url = apiURL c @ ''/'' @ orcidID @ ''/record'' in
      case doRequest e c ''GET'' url w of
        (Inl er, w1) \<Rightarrow> (Inl er, w1)
      | (Inr resp, w1) \<Rightarrow> (ReadAll resp, w1))"

section \<open>Search and its iterator\<close>

record SearchParams =
  Query :: string
  Start :: int
  Rows :: int

definition searchValues :: "SearchParams \<Rightarrow> Values" where
  "searchValues sp =
     (let queryParams = Set [] ''q'' (Query sp);
          queryParams = (if Start sp > 0 then Set queryParams ''start'' (Sprintf_d (Start sp))
                         else queryParams)
      in if Rows sp > 0 then Set queryParams ''rows'' (Sprintf_d (Rows sp))
         else Set queryParams ''rows'' ''10'')"

definition buildSearchURL :: "Client \<Rightarrow> SearchParams \<Rightarrow> string" where
  "buildSearchURL c sp =
     (let baseURL = apiURL c @ ''/search'' in baseURL @ ''?'' @ Encode (searchValues sp))"

definition Search ::
  "env \<Rightarrow> Client \<Rightarrow> SearchParams \<Rightarrow> world \<Rightarrow> (error + SearchResult) \<times> world" where
  "Search e c sp w =
     (let searchURL = buildSearchURL c sp in
      case doRequest e c ''GET'' searchURL w of
        (Inl er, w1) \<Rightarrow> (Inl er, w1)
      | (Inr resp, w1) \<Rightarrow>
          (case ReadAll resp of
             Inl er \<Rightarrow> (Inl er, w1)
           | Inr data \<Rightarrow> (unmarshalResponse e c data, w1)))"

text \<open>
  The iterator.  Its context is the cancellation signal of the environment; \<open>err\<close> is
  \<open>None\<close> for \<open>nil\<close>, and so is \<open>currentBatch\<close>.  \<open>Next\<close> adds \<open>Start\<close> and
  \<open>Rows\<close> with Go's addition; the index stays between \<open>-1\<close> and the length of a page.
\<close>

record SearchIterator =
  client :: Client
  params :: SearchParams
  currentBatch :: "SearchResult option"
  currentIndex :: int
  totalResults :: int
  err :: "error option"

definition SearchIter :: "Client \<Rightarrow> SearchParams \<Rightarrow> SearchIterator" where
  "SearchIter c sp =
     \<lparr>client = c, params = sp, currentBatch = None, currentIndex = - 1, totalResults = 0,
      err = None\<rparr>"

text \<open>
  The last two statements of \<open>Next\<close>: \<open>si.currentIndex++\<close> and the comparison with the
  length of the current batch \<open>b\<close>.
\<close>

definition advanceIndex :: "SearchIterator \<Rightarrow> SearchResult \<Rightarrow> bool \<times> SearchIterator" where
  "advanceIndex si b =
     (let si1 = si\<lparr>currentIndex := currentIndex si + 1\<rparr>
      in (currentIndex si1 < int (length (Results b)), si1))"

text \<open>
  The call of \<open>si.client.Search\<close> in \<open>Next\<close> and what follows it, with \<open>si.params\<close>
  already moved to the page to fetch.
\<close>

definition fetchBatch :: "env \<Rightarrow> SearchIterator \<Rightarrow> world \<Rightarrow> bool \<times> SearchIterator \<times> world" where
  "fetchBatch e si w =
     (case Search e (client si) (params si) w of
        (Inl er, w1) \<Rightarrow> (False, si\<lparr>err := Some er\<rparr>, w1)
      | (Inr result, w1) \<Rightarrow>
          (let si1 = si\<lparr>currentBatch := Some result, totalResults := NumFound result,
                        currentIndex := - 1\<rparr>
           in if length (Results result) = 0 then (False, si1, w1)
              else (case advanceIndex si1 result of (hasMore, si2) \<Rightarrow> (hasMore, si2, w1))))"

definition Next :: "env \<Rightarrow> SearchIterator \<Rightarrow> world \<Rightarrow> bool \<times> SearchIterator \<times> world" where
  "Next e si w =
     (if err si \<noteq> None then (False, si, w)
      else
        (case selectDone e w of
           (True, w1) \<Rightarrow> (False, si\<lparr>err := Some ContextDone\<rparr>, w1)
         | (False, w1) \<Rightarrow>
             (case currentBatch si of
                None \<Rightarrow> fetchBatch e si w1
              | Some b \<Rightarrow>
                  if currentIndex si \<ge> int (length (Results b)) - 1
                  then (if addInt (Start (params si)) (Rows (params si)) \<ge> totalResults si
                        then (False, si, w1)
                        else fetchBatch e
                               (si\<lparr>params := (params si)\<lparr>Start := addInt (Start (params si))
                                                                         (Rows (params si))\<rparr>\<rparr>) w1)
                  else (case advanceIndex si b of (hasMore, si1) \<Rightarrow> (hasMore, si1, w1)))))"

definition Value :: "SearchIterator \<Rightarrow> SearchRecord option" where
  "Value si =
     (case currentBatch si of
        None \<Rightarrow> None
      | Some b \<Rightarrow>
          if currentIndex si < 0 \<or> currentIndex si \<ge> int (length (Results b)) then None
          else Results b ! nat (currentIndex si))"

definition Error :: "SearchIterator \<Rightarrow> error option" where
  "Error si = err si"

definition TotalResults :: "SearchIterator \<Rightarrow> int" where
  "TotalResults si = totalResults si"

text \<open>
  The caller's loop \<open>for iter.Next() { ... iter.Value() ... }\<close>, recording with each record
  what \<open>TotalResults()\<close> reads at that moment.  The loop has no bound of its own, so it runs
  on fuel: \<open>None\<close> when the fuel is used up before \<open>Next\<close> returns false.
\<close>

fun drain ::
  "nat \<Rightarrow> env \<Rightarrow> SearchIterator \<Rightarrow> world
    \<Rightarrow> ((SearchRecord option \<times> int) list \<times> SearchIterator \<times> world) option" where
  "drain 0 e si w = None"
| "drain (Suc fuel) e si w =
     (case Next e si w of
        (False, si1, w1) \<Rightarrow> Some ([], si1, w1)
      | (True, si1, w1) \<Rightarrow>
          (case drain fuel e si1 w1 of
             None \<Rightarrow> None
           | Some (items, fin) \<Rightarrow> Some ((Value si1, TotalResults si1) # items, fin)))"

text \<open>\<open>n\<close> further calls of \<open>Next\<close>, with the list of what they returned.\<close>

fun Nexts :: "nat \<Rightarrow> env \<Rightarrow> SearchIterator \<Rightarrow> world \<Rightarrow> bool list \<times> SearchIterator \<times> world" where
  "Nexts 0 e si w = ([], si, w)"
| "Nexts (Suc n) e si w =
     (case Next e si w of
        (hasMore, si1, w1) \<Rightarrow> (case Nexts n e si1 w1 of (bs, fin) \<Rightarrow> (hasMore # bs, fin)))"

section \<open>Auxiliary notions for the proofs\<close>

text \<open>The hyphenated form that \<open>FormatOrcidID\<close> prints for sixteen bytes.\<close>

definition hyph :: "string \<Rightarrow> string" where
  "hyph u = take 4 u @ ''-'' @ take 4 (drop 4 u) @ ''-'' @ take 4 (drop 8 u) @ ''-'' @ take 4 (drop 12 u)"

text \<open>What \<open>FormatOrcidID\<close> leaves of its argument before grouping: no hyphen, no slash, upper case.\<close>

definition normalised :: "string \<Rightarrow> bool" where
  "normalised u = (CHR ''-'' \<notin> set u \<and> CHR ''/'' \<notin> set u \<and> (\<forall>c\<in>set u. upperByte c = c))"

text \<open>
  The outcomes of \<open>httpClient.Do\<close> after which \<open>doRequest\<close> is expected to retry: an
  error of the transport, or a response with status 429, 408 or 5xx; and the error that
  \<open>lastErr\<close> is expected to hold after such an outcome.
\<close>

fun retryableOutcome :: "string + Response \<Rightarrow> bool" where
  "retryableOutcome (Inl msg) = True"
| "retryableOutcome (Inr resp) =
     (StatusCode resp = 429 \<or> StatusCode resp = 408
      \<or> (500 \<le> StatusCode resp \<and> StatusCode resp < 600))"

fun causeOf :: "string + Response \<Rightarrow> error" where
  "causeOf (Inl msg) = TransportError msg"
| "causeOf (Inr resp) = RetryableStatus (StatusCode resp) (Status resp)"

text \<open>
  The events of the retried attempts \<open>a\<close>, \<open>a + 1\<close>, ..., \<open>a + n - 1\<close> when none is
  cancelled: each is a backoff of \<open>attempt * attempt\<close> seconds followed by the request.
\<close>

definition retryEvents :: "Request \<Rightarrow> nat \<Rightarrow> nat \<Rightarrow> event list" where
  "retryEvents req a n =
     concat (map (\<lambda>k. [Backoff (int (k * k) * Second), Send req]) [a..<a + n])"

text \<open>
  The world in which the retry loop of \<open>doRequest\<close> starts when the permit, if one is
  awaited, is received; the world after the iteration \<open>a\<close> of the loop when its backoff, if
  any, is not cancelled; and the world after the first \<open>n\<close> iterations.
\<close>

definition started :: "Client \<Rightarrow> world \<Rightarrow> world" where
  "started c w = (if rateLimiter c \<noteq> None then emit Permit (w\<lparr>clock := Suc (clock w)\<rparr>) else w)"

definition stepWorld :: "Request \<Rightarrow> nat \<Rightarrow> world \<Rightarrow> world" where
  "stepWorld req a w =
     emit (Send req)
       (if a > 0 then emit (Backoff (int (a * a) * Second)) (w\<lparr>clock := Suc (clock w)\<rparr>) else w)"

definition afterAttempts :: "Request \<Rightarrow> nat \<Rightarrow> world \<Rightarrow> world" where
  "afterAttempts req n w =
     (if n = 0 then w
      else w\<lparr>clock := clock w + (n - 1),
             trace := trace w @ Send req # retryEvents req 1 (n - 1)\<rparr>)"

section \<open>Example environments\<close>

text \<open>
  Concrete inputs for the instances below: an environment whose cancellation signal never
  fires and which accepts every request, around a given transport; a response with no read
  error; the client of the repository's tests.
\<close>

definition quietEnv :: "(nat \<Rightarrow> Request \<Rightarrow> string + Response) \<Rightarrow> env" where
  "quietEnv t =
     \<lparr>ctx_done = (\<lambda>i. False), newRequestErr = (\<lambda>method url. None), httpDo = t,
      jsonUnmarshal = (\<lambda>data. Inl ''no decoder''), xmlUnmarshal = (\<lambda>data. Inl ''no decoder'')\<rparr>"

definition response :: "int \<Rightarrow> string \<Rightarrow> string \<Rightarrow> Response" where
  "response code text body = \<lparr>StatusCode = code, Status = text, Body = body, BodyErr = None\<rparr>"

definition testClient :: "int \<Rightarrow> Client" where
  "testClient retries =
     defaultClient\<lparr>apiURL := ''http://127.0.0.1/v3.0'', bearerToken := ''test-token'',
                   maxRetries := retries\<rparr>"

definition world0 :: world where
  "world0 = \<lparr>clock = 0, trace = []\<rparr>"

text \<open>A server that answers 429 to its first \<open>n\<close> requests and answers 200 afterwards.\<close>

definition failingFirst :: "nat \<Rightarrow> nat \<Rightarrow> Request \<Rightarrow> string + Response" where
  "failingFirst n i req =
     (if i < n then Inr (response 429 ''429 Too Many Requests'' [])
      else Inr (response 200 ''200 OK'' ''{}''))"

definition alwaysStatus :: "int \<Rightarrow> string \<Rightarrow> string \<Rightarrow> nat \<Rightarrow> Request \<Rightarrow> string + Response" where
  "alwaysStatus code text body i req = Inr (response code text body)"

text \<open>The same environment, with a context that is cancelled from the consultation \<open>n\<close> on.\<close>

definition cancelledFrom :: "nat \<Rightarrow> (nat \<Rightarrow> Request \<Rightarrow> string + Response) \<Rightarrow> env" where
  "cancelledFrom n t = (quietEnv t)\<lparr>ctx_done := (\<lambda>i. n \<le> i)\<rparr>"

text \<open>
  The client that \<open>NewClient\<close> builds from a base URL, a token and a retry budget: the
  default rate of 10 requests per second gives it a ticker of 100 milliseconds.
\<close>

definition limitedClient :: "int \<Rightarrow> Client" where
  "limitedClient retries = (testClient retries)\<lparr>rateLimiter := Some \<lparr>period = 100000000\<rparr>\<rparr>"

definition recordURL :: string where
  "recordURL = ''http://127.0.0.1/v3.0/0000-0002-1825-0097/record''"

text \<open>
  The search of the repository's iterator test: 25 results reported, two records on the pages
  at offsets 0 and 10 and one on every other page.  The server chooses the page by the
  \<open>start\<close> parameter of the URL; the decoder stands for \<open>json.Unmarshal\<close> on the three
  bodies.
\<close>

definition testParams :: SearchParams where
  "testParams = \<lparr>Query = ''test'', Start = 0, Rows = 10\<rparr>"

definition searchRecord :: "string \<Rightarrow> SearchRecord option" where
  "searchRecord p = Some \<lparr>OrcidIdentifier = Some \<lparr>URI = [], Path = p, Host = []\<rparr>\<rparr>"

definition pagedServer :: "nat \<Rightarrow> Request \<Rightarrow> string + Response" where
  "pagedServer i req =
     (if URL req = ''http://127.0.0.1/v3.0/search?q=test&rows=10''
         \<or> URL req = ''http://127.0.0.1/v3.0/search?q=test&rows=10&start=0''
      then Inr (response 200 ''200 OK'' ''page at 0'')
      else if URL req = ''http://127.0.0.1/v3.0/search?q=test&rows=10&start=10''
      then Inr (response 200 ''200 OK'' ''page at 10'')
      else Inr (response 200 ''200 OK'' ''page at 20''))"

definition pageAt :: "int \<Rightarrow> SearchResult" where
  "pageAt offset =
     \<lparr>NumFound = 25, ResultStart = offset, NumRows = 10,
      Results = (if offset = 0
                 then [searchRecord ''0000-0000-0000-0001'', searchRecord ''0000-0000-0000-0002'']
                 else if offset = 10
                 then [searchRecord ''0000-0000-0000-0003'', searchRecord ''0000-0000-0000-0004'']
                 else [searchRecord ''0000-0000-0000-0005''])\<rparr>"

definition pagedDecoder :: "string \<Rightarrow> string + SearchResult" where
  "pagedDecoder data =
     (if data = ''page at 0'' then Inr (pageAt 0)
      else if data = ''page at 10'' then Inr (pageAt 10)
      else if data = ''page at 20'' then Inr (pageAt 20)
      else Inl ''unexpected body'')"

definition pagedEnv :: env where
  "pagedEnv = (quietEnv pagedServer)\<lparr>jsonUnmarshal := pagedDecoder\<rparr>"

text \<open>A search whose every page is empty although \<open>reported\<close> results are announced.\<close>

definition emptyPage :: "int \<Rightarrow> SearchResult" where
  "emptyPage reported = \<lparr>NumFound = reported, ResultStart = 0, NumRows = 0, Results = []\<rparr>"

definition emptyPageEnv :: "int \<Rightarrow> env" where
  "emptyPageEnv reported =
     (quietEnv (alwaysStatus 200 ''200 OK'' ''empty''))
       \<lparr>jsonUnmarshal := (\<lambda>data. Inr (emptyPage reported))\<rparr>"

definition searchRequest :: "string \<Rightarrow> Request" where
  "searchRequest query = newRequest (testClient 3) ''GET'' (''http://127.0.0.1/v3.0/search?'' @ query)"

text \<open>
  The same server when the page at offset 0 comes back empty, still reporting 25 results.
\<close>

definition emptyFirstDecoder :: "string \<Rightarrow> string + SearchResult" where
  "emptyFirstDecoder data =
     (if data = ''page at 0''
      then Inr \<lparr>NumFound = 25, ResultStart = 0, NumRows = 10, Results = []\<rparr>
      else pagedDecoder data)"

definition emptyFirstEnv :: env where
  "emptyFirstEnv = (quietEnv pagedServer)\<lparr>jsonUnmarshal := emptyFirstDecoder\<rparr>"

text \<open>A search that starts ten below the largest \<open>int\<close>, and one that leaves \<open>Rows\<close> at 0.\<close>

definition hugeStartParams :: SearchParams where
  "hugeStartParams = \<lparr>Query = ''test'', Start = 9223372036854775800, Rows = 10\<rparr>"

definition zeroRowsParams :: SearchParams where
  "zeroRowsParams = \<lparr>Query = ''test'', Start = 0, Rows = 0\<rparr>"

text \<open>
  The iterator of that search after its first call of \<open>Next\<close>: the server has answered with
  its one-record page and a total of 25.
\<close>

definition hugeStartIterator :: SearchIterator where
  "hugeStartIterator =
     (SearchIter (testClient 3) hugeStartParams)
       \<lparr>currentBatch := Some (pageAt 20), currentIndex := 0, totalResults := 25\<rparr>"

section \<open>Properties of the identifier utilities\<close>

text \<open>The four cases of the repository's test of \<open>FormatOrcidID\<close>.\<close>

lemma FormatOrcidID_test_cases:
  "FormatOrcidID ''0000-0002-1825-0097'' = ''0000-0002-1825-0097''"
  "FormatOrcidID ''0000000218250097'' = ''0000-0002-1825-0097''"
  "FormatOrcidID ''https://orcid.org/0000-0002-1825-0097'' = ''0000-0002-1825-0097''"
  "FormatOrcidID ''0000-0002-1825-009x'' = ''0000-0002-1825-009X''"
  by code_simp+

lemma Split_nonempty: "Split s sep \<noteq> []"
  by (induction s) (auto split: list.splits)

lemma last_Split_notin: "sep \<notin> set (last (Split s sep))"
  by (induction s) (auto split: list.splits simp: Split_nonempty)

lemma Split_no_sep: "sep \<notin> set s \<Longrightarrow> Split s sep = [s]"
  by (induction s) (auto split: list.splits)

lemma ParseOrcidID_last: "ParseOrcidID s = last (Split (TrimSpace s) CHR ''/'')"
  by (simp add: ParseOrcidID_def Let_def)

lemma of_char_upperByte:
  "(of_char (upperByte c) :: nat) =
     (if 97 \<le> (of_char c :: nat) \<and> (of_char c :: nat) \<le> 122 then of_char c - 32 else of_char c)"
  by (auto simp: upperByte_def Let_def)

lemma upperByte_idem: "upperByte (upperByte c) = upperByte c"
proof -
  have "(of_char (upperByte (upperByte c)) :: nat) = of_char (upperByte c)"
    by (auto simp: of_char_upperByte)
  then show ?thesis by (simp only: of_char_eq_iff)
qed

lemma upperByte_eq_low:
  assumes "(of_char d :: nat) < 65"
  shows "upperByte c = d \<longleftrightarrow> c = d"
proof -
  have "upperByte c = d \<longleftrightarrow> (of_char (upperByte c) :: nat) = of_char d"
    by (simp only: of_char_eq_iff)
  also have "\<dots> \<longleftrightarrow> (of_char c :: nat) = of_char d"
    using assms by (auto simp: of_char_upperByte)
  also have "\<dots> \<longleftrightarrow> c = d" by (simp only: of_char_eq_iff)
  finally show ?thesis .
qed

lemma isSpace_upperByte: "isSpace (upperByte c) = isSpace c"
  by (simp add: isSpace_def upperByte_eq_low)

lemma upperByte_hyphen: "upperByte c = CHR ''-'' \<longleftrightarrow> c = CHR ''-''"
  by (simp add: upperByte_eq_low)

lemma upperByte_slash: "upperByte c = CHR ''/'' \<longleftrightarrow> c = CHR ''/''"
  by (simp add: upperByte_eq_low)

lemma FormatOrcidID_hyph:
  "FormatOrcidID s = (let u = ToUpper (RemoveAll (ParseOrcidID s) CHR ''-'') in
                      if length u = 16 then hyph u else u)"
  by (simp add: FormatOrcidID_def hyph_def Let_def)

lemma TrimSpace_decomp:
  "\<exists>pre post. s = pre @ TrimSpace s @ post \<and> (\<forall>c\<in>set pre. isSpace c) \<and> (\<forall>c\<in>set post. isSpace c)"
proof -
  let ?a = "dropWhile isSpace s"
  have 1: "s = takeWhile isSpace s @ ?a" by simp
  have 2: "rev ?a = takeWhile isSpace (rev ?a) @ dropWhile isSpace (rev ?a)" by simp
  have "?a = rev (dropWhile isSpace (rev ?a)) @ rev (takeWhile isSpace (rev ?a))"
    using arg_cong [OF 2, of rev] by (simp only: rev_append rev_rev_ident)
  then have 3: "?a = TrimSpace s @ rev (takeWhile isSpace (rev ?a))"
    by (simp add: TrimSpace_def)
  have 4: "s = takeWhile isSpace s @ TrimSpace s @ rev (takeWhile isSpace (rev ?a))"
    using 1 3 by metis
  have 5: "\<forall>c\<in>set (takeWhile isSpace s). isSpace c"
    by (auto dest: set_takeWhileD)
  have 6: "\<forall>c\<in>set (rev (takeWhile isSpace (rev ?a))). isSpace c"
    by (auto dest: set_takeWhileD)
  show ?thesis using 4 5 6 by blast
qed

lemma set_TrimSpace: "set (TrimSpace s) \<subseteq> set s"
proof -
  obtain pre post where "s = pre @ TrimSpace s @ post" using TrimSpace_decomp by blast
  then have "set s = set pre \<union> set (TrimSpace s) \<union> set post"
    by (metis set_append sup_assoc)
  then show ?thesis by blast
qed

lemma length_TrimSpace: "length (TrimSpace s) \<le> length s"
proof -
  obtain pre post where "s = pre @ TrimSpace s @ post" using TrimSpace_decomp by blast
  then have "length s = length pre + length (TrimSpace s) + length post"
    by (metis length_append add.assoc)
  then show ?thesis by simp
qed

lemma TrimSpace_eq_length: "length (TrimSpace s) = length s \<Longrightarrow> TrimSpace s = s"
proof -
  assume h: "length (TrimSpace s) = length s"
  obtain pre post where d: "s = pre @ TrimSpace s @ post" using TrimSpace_decomp by blast
  then have "length s = length pre + length (TrimSpace s) + length post"
    by (metis length_append add.assoc)
  with h have "pre = []" "post = []" by simp_all
  with d show ?thesis by simp
qed

lemma normalised_norm: "normalised (ToUpper (RemoveAll (ParseOrcidID s) CHR ''-''))"
proof -
  let ?p = "RemoveAll (ParseOrcidID s) CHR ''-''"
  have "CHR ''/'' \<notin> set (ParseOrcidID s)"
    by (simp add: ParseOrcidID_last last_Split_notin)
  then have p: "CHR ''-'' \<notin> set ?p" "CHR ''/'' \<notin> set ?p"
    by (auto simp: RemoveAll_def)
  have a: "CHR ''-'' \<notin> set (ToUpper ?p)"
  proof
    assume "CHR ''-'' \<in> set (ToUpper ?p)"
    then obtain d where "d \<in> set ?p" "upperByte d = CHR ''-''"
      by (auto simp: ToUpper_def)
    then show False using p(1) by (simp add: upperByte_hyphen)
  qed
  have b: "CHR ''/'' \<notin> set (ToUpper ?p)"
  proof
    assume "CHR ''/'' \<in> set (ToUpper ?p)"
    then obtain d where "d \<in> set ?p" "upperByte d = CHR ''/''"
      by (auto simp: ToUpper_def)
    then show False using p(2) by (simp add: upperByte_slash)
  qed
  have c: "\<forall>c\<in>set (ToUpper ?p). upperByte c = c"
    by (auto simp: ToUpper_def upperByte_idem)
  show ?thesis unfolding normalised_def using a b c by blast
qed

lemma normalised_upper: "normalised u \<Longrightarrow> ToUpper u = u"
  by (auto simp: normalised_def ToUpper_def intro: map_idI)

lemma Format_of_clean:
  assumes "CHR ''/'' \<notin> set t"
  shows "FormatOrcidID t = (let v = ToUpper (RemoveAll (TrimSpace t) CHR ''-'') in
                            if length v = 16 then hyph v else v)"
proof -
  have "CHR ''/'' \<notin> set (TrimSpace t)" using assms set_TrimSpace by blast
  then have "ParseOrcidID t = TrimSpace t"
    by (simp add: ParseOrcidID_last Split_no_sep)
  then show ?thesis by (simp add: FormatOrcidID_hyph)
qed

lemma normalised_fix:
  assumes "normalised u"
  shows "ToUpper (RemoveAll u CHR ''-'') = u"
proof -
  have "RemoveAll u CHR ''-'' = u" using assms by (auto simp: normalised_def RemoveAll_def filter_id_conv)
  moreover have "ToUpper u = u" using assms by (auto simp: normalised_def ToUpper_def intro: map_idI)
  ultimately show ?thesis by simp
qed

lemma hyph_mem: "CHR ''-'' \<in> set (hyph u)"
  by (simp add: hyph_def)

lemma length_hyph: "length u = 16 \<Longrightarrow> length (hyph u) = 19"
  by (simp add: hyph_def)

lemma RemoveAll_hyph:
  assumes "CHR ''-'' \<notin> set u" "length u = 16"
  shows "RemoveAll (hyph u) CHR ''-'' = u"
proof -
  have f: "\<And>xs. set xs \<subseteq> set u \<Longrightarrow> filter (\<lambda>c. c \<noteq> CHR ''-'') xs = xs"
    using assms(1) by (auto simp: filter_id_conv)
  have "RemoveAll (hyph u) CHR ''-'' = take 4 u @ take 4 (drop 4 u) @ take 4 (drop 8 u) @ take 4 (drop 12 u)"
    by (simp add: RemoveAll_def hyph_def f set_take_subset set_drop_subset
          order_trans [OF set_take_subset set_drop_subset])
  also have "\<dots> = take 4 u @ take 4 (drop 4 u) @ take 4 (drop 4 (drop 4 u)) @ drop 4 (drop 4 (drop 4 u))"
    using assms(2) by simp
  also have "\<dots> = u"
    by (simp only: append_take_drop_id)
  finally show ?thesis .
qed

lemma RemoveAll_TrimSpace_shorter:
  assumes ne: "TrimSpace s \<noteq> s" and c: "\<not> isSpace c"
  shows "length (RemoveAll (TrimSpace s) c) < length (RemoveAll s c)"
proof -
  define T where "T = TrimSpace s"
  obtain pre post where d: "s = pre @ T @ post"
      and sp: "\<forall>x\<in>set pre. isSpace x" "\<forall>x\<in>set post. isSpace x"
    unfolding T_def using TrimSpace_decomp [of s] by blast
  have "pre @ post \<noteq> []"
  proof
    assume "pre @ post = []"
    then have "s = T" using d by simp
    then show False using ne T_def by simp
  qed
  then have pos: "0 < length pre + length post" by simp
  have keep: "RemoveAll pre c = pre" "RemoveAll post c = post"
    using sp c by (auto simp: RemoveAll_def filter_id_conv)
  have "RemoveAll s c = RemoveAll pre c @ RemoveAll T c @ RemoveAll post c"
    by (simp add: d RemoveAll_def)
  then have "length (RemoveAll s c) = length pre + length (RemoveAll T c) + length post"
    by (simp add: keep)
  then show ?thesis using pos T_def by simp
qed

lemma FormatOrcidID_again_plain:
  assumes n: "normalised u" and l: "length u \<noteq> 16"
  shows "(FormatOrcidID u = u) = (TrimSpace u = u)"
proof -
  let ?t = "TrimSpace u"
  have sub: "set ?t \<subseteq> set u" by (rule set_TrimSpace)
  have nt: "normalised ?t" using n sub by (auto simp: normalised_def)
  have F: "FormatOrcidID u = (if length ?t = 16 then hyph ?t else ?t)"
    using n by (simp add: Format_of_clean normalised_def normalised_fix [OF nt] Let_def)
  show ?thesis
  proof (cases "?t = u")
    case True
    then show ?thesis using F l by simp
  next
    case False
    have "hyph ?t \<noteq> u" using hyph_mem [of ?t] n by (auto simp: normalised_def)
    then show ?thesis using F False by simp
  qed
qed

lemma FormatOrcidID_again_grouped:
  assumes n: "normalised u" and l: "length u = 16"
  shows "(FormatOrcidID (hyph u) = hyph u) = (TrimSpace (hyph u) = hyph u)"
proof -
  let ?h = "hyph u"
  let ?t = "TrimSpace ?h"
  have noslash: "CHR ''/'' \<notin> set ?h" using n
    by (auto simp: hyph_def normalised_def dest: in_set_takeD in_set_dropD)
  have F: "FormatOrcidID ?h = (let v = ToUpper (RemoveAll ?t CHR ''-'') in if length v = 16 then hyph v else v)"
    by (rule Format_of_clean [OF noslash])
  show ?thesis
  proof (cases "?t = ?h")
    case True
    have "ToUpper (RemoveAll ?t CHR ''-'') = u"
      using True n l by (simp add: RemoveAll_hyph normalised_def normalised_upper)
    then show ?thesis using F True l by (simp add: Let_def)
  next
    case False
    have "length (RemoveAll ?t CHR ''-'') < length (RemoveAll ?h CHR ''-'')"
      by (rule RemoveAll_TrimSpace_shorter [OF False]) (simp add: isSpace_def)
    moreover have "RemoveAll ?h CHR ''-'' = u" using n l by (simp add: RemoveAll_hyph normalised_def)
    ultimately have lt: "length (ToUpper (RemoveAll ?t CHR ''-'')) < 16"
      using l by (simp add: ToUpper_def)
    then have "FormatOrcidID ?h = ToUpper (RemoveAll ?t CHR ''-'')"
      using F by (simp add: Let_def)
    then have "length (FormatOrcidID ?h) \<noteq> length ?h"
      using lt length_hyph [OF l] by simp
    then have "FormatOrcidID ?h \<noteq> ?h" by auto
    then show ?thesis using False by simp
  qed
qed

lemma set_last_Split: "set (last (Split s sep)) \<subseteq> set s"
  by (induction s) (auto split: list.splits simp: Split_nonempty)

lemma TrimSpace_no_space:
  assumes "\<forall>c\<in>set x. \<not> isSpace c"
  shows "TrimSpace x = x"
proof -
  have a: "\<And>y. \<forall>c\<in>set y. \<not> isSpace c \<Longrightarrow> dropWhile isSpace y = y"
    by (case_tac y) auto
  have "dropWhile isSpace (rev x) = rev x" using assms by (intro a) simp
  then show ?thesis using assms by (simp add: TrimSpace_def a)
qed

lemma Format_no_space:
  assumes "\<forall>c\<in>set s. \<not> isSpace c"
  shows "\<forall>c\<in>set (FormatOrcidID s). \<not> isSpace c"
proof -
  let ?u = "ToUpper (RemoveAll (ParseOrcidID s) CHR ''-'')"
  have "set (ParseOrcidID s) \<subseteq> set s"
    using set_last_Split [of "TrimSpace s" "CHR ''/''"] set_TrimSpace [of s]
    by (simp add: ParseOrcidID_last)
  then have u: "\<forall>c\<in>set ?u. \<not> isSpace c"
    using assms by (auto simp: ToUpper_def RemoveAll_def isSpace_upperByte)
  have h: "\<forall>c\<in>set (hyph ?u). \<not> isSpace c"
  proof
    fix c assume "c \<in> set (hyph ?u)"
    then have "c = CHR ''-'' \<or> c \<in> set ?u"
      by (auto simp: hyph_def dest: in_set_takeD in_set_dropD)
    then show "\<not> isSpace c" using u by (auto simp: isSpace_def)
  qed
  show ?thesis using u h by (simp add: FormatOrcidID_hyph Let_def)
qed

text \<open>
  Claim C10, as amended.  \<open>FormatOrcidID\<close> is not idempotent on every input: the last
  segment of the trimmed input may begin with white space (or show white space at either end
  once its hyphens are gone), which the first call keeps and the second call trims.  For ASCII
  input \<open>s\<close>, formatting \<open>FormatOrcidID s\<close> again leaves it unchanged exactly when
  \<open>FormatOrcidID s\<close> has no white space at its ends; this is so, in particular, whenever
  \<open>s\<close> contains no white space at all.
\<close>

theorem FormatOrcidID_idempotent_iff:
  assumes "ascii s"
  shows "((FormatOrcidID (FormatOrcidID s) = FormatOrcidID s)
            = (TrimSpace (FormatOrcidID s) = FormatOrcidID s))
         \<and> ((\<forall>c\<in>set s. \<not> isSpace c) \<longrightarrow> FormatOrcidID (FormatOrcidID s) = FormatOrcidID s)"
proof -
  let ?u = "ToUpper (RemoveAll (ParseOrcidID s) CHR ''-'')"
  have n: "normalised ?u" by (rule normalised_norm)
  have iff: "(FormatOrcidID (FormatOrcidID s) = FormatOrcidID s)
               = (TrimSpace (FormatOrcidID s) = FormatOrcidID s)"
  proof (cases "length ?u = 16")
    case True
    then have "FormatOrcidID s = hyph ?u" by (simp add: FormatOrcidID_hyph Let_def)
    then show ?thesis using FormatOrcidID_again_grouped [OF n True] by simp
  next
    case False
    then have "FormatOrcidID s = ?u" by (simp add: FormatOrcidID_hyph Let_def)
    then show ?thesis using FormatOrcidID_again_plain [OF n False] by simp
  qed
  have "(\<forall>c\<in>set s. \<not> isSpace c) \<longrightarrow> TrimSpace (FormatOrcidID s) = FormatOrcidID s"
    using Format_no_space TrimSpace_no_space by blast
  with iff show ?thesis by blast
qed

theorem FormatOrcidID_idempotent_witness:
  "ascii ''https://orcid.org/0000-0002-1825-009x''
   \<and> FormatOrcidID ''https://orcid.org/0000-0002-1825-009x'' = ''0000-0002-1825-009X''
   \<and> FormatOrcidID (FormatOrcidID ''https://orcid.org/0000-0002-1825-009x'')
       = FormatOrcidID ''https://orcid.org/0000-0002-1825-009x''"
proof -
  have a: "ascii ''https://orcid.org/0000-0002-1825-009x''" by code_simp
  have b: "\<forall>c\<in>set ''https://orcid.org/0000-0002-1825-009x''. \<not> isSpace c" by code_simp
  have c: "FormatOrcidID ''https://orcid.org/0000-0002-1825-009x'' = ''0000-0002-1825-009X''"
    by code_simp
  show ?thesis using FormatOrcidID_idempotent_iff [OF a] a b c by blast
qed

text \<open>
  The claim as stated fails on a URL with a blank after the last slash: the first call returns
  the seventeen bytes \<open>'' 0000000218250097''\<close>, the second call
  \<open>''0000-0002-1825-0097''\<close>.
\<close>

theorem FormatOrcidID_not_idempotent:
  "FormatOrcidID (FormatOrcidID ''https://orcid.org/ 0000-0002-1825-0097'')
     \<noteq> FormatOrcidID ''https://orcid.org/ 0000-0002-1825-0097''"
  by code_simp

section \<open>The search URL\<close>

lemma of_char_digitChar: "d < 10 \<Longrightarrow> (of_char (digitChar d) :: nat) = 48 + d"
  by (simp add: digitChar_def)

lemma digits_are_digits:
  "\<forall>c\<in>set (digits n). 48 \<le> (of_char c :: nat) \<and> (of_char c :: nat) \<le> 57"
proof (induction n rule: digits.induct)
  case (1 n)
  show ?case
  proof (cases "n < 10")
    case True
    then show ?thesis by (subst digits.simps) (simp add: of_char_digitChar)
  next
    case False
    have "n mod 10 < 10" by simp
    then have "(of_char (digitChar (n mod 10)) :: nat) = 48 + n mod 10"
      by (rule of_char_digitChar)
    moreover have "n mod 10 \<le> 9" by simp
    ultimately show ?thesis using False 1
      by (subst digits.simps) auto
  qed
qed

lemma QueryEscape_unreserved: "\<forall>c\<in>set s. \<not> shouldEscape c \<Longrightarrow> QueryEscape s = s"
  by (induction s) (simp_all add: QueryEscape_def escapeByte_def)

lemma QueryEscape_digits: "QueryEscape (digits n) = digits n"
proof (rule QueryEscape_unreserved, rule ballI)
  fix c assume "c \<in> set (digits n)"
  then have "48 \<le> (of_char c :: nat) \<and> (of_char c :: nat) \<le> 57"
    using digits_are_digits by blast
  then show "\<not> shouldEscape c" by (simp add: shouldEscape_def isAlnum_def)
qed

lemma QueryEscape_Sprintf_d: "0 \<le> n \<Longrightarrow> QueryEscape (Sprintf_d n) = Sprintf_d n"
  by (simp add: Sprintf_d_def QueryEscape_digits)

lemma QueryEscape_q: "QueryEscape ''q'' = ''q''" by code_simp
lemma QueryEscape_rows: "QueryEscape ''rows'' = ''rows''" by code_simp
lemma QueryEscape_start: "QueryEscape ''start'' = ''start''" by code_simp
lemma QueryEscape_10: "QueryEscape ''10'' = ''10''" by code_simp
lemma strLess_keys: "strLess ''q'' ''rows''" "strLess ''q'' ''start''" "strLess ''rows'' ''start''"
  "\<not> strLess ''rows'' ''q''" "\<not> strLess ''start'' ''q''" "\<not> strLess ''start'' ''rows''"
  by code_simp+

lemmas url_simps = searchValues_def buildSearchURL_def Encode_def Let_def strLess_keys
  QueryEscape_q QueryEscape_rows QueryEscape_start QueryEscape_10 QueryEscape_Sprintf_d

text \<open>
  Claim C9.  For every \<open>SearchParams\<close> value the query of the search URL carries \<open>q\<close> with
  the query string, has no \<open>start\<close> when the start offset is 0 (it has one exactly when the
  offset is positive), and carries \<open>rows\<close> with the requested count when that is positive
  and with \<open>10\<close> otherwise.  The last conjunct gives the URL itself: the keys in sorted order,
  the query string escaped by \<open>url.QueryEscape\<close>.
\<close>

theorem buildSearchURL_parameters:
  "Get (searchValues sp) ''q'' = Some [Query sp]
   \<and> (Start sp = 0 \<longrightarrow> Get (searchValues sp) ''start'' = None)
   \<and> (Rows sp > 0 \<longrightarrow> Get (searchValues sp) ''rows'' = Some [Sprintf_d (Rows sp)])
   \<and> (Rows sp \<le> 0 \<longrightarrow> Get (searchValues sp) ''rows'' = Some [''10''])
   \<and> buildSearchURL c sp =
        apiURL c @ ''/search?q='' @ QueryEscape (Query sp)
        @ ''&rows='' @ (if Rows sp > 0 then Sprintf_d (Rows sp) else ''10'')
        @ (if Start sp > 0 then ''&start='' @ Sprintf_d (Start sp) else [])"
  by (simp add: url_simps)

theorem buildSearchURL_parameters_witness:
  "buildSearchURL defaultClient \<lparr>Query = ''family-name:Smith'', Start = 0, Rows = 10\<rparr>
     = ''https://pub.orcid.org/v3.0/search?q=family-name%3ASmith&rows=10''
   \<and> Get (searchValues \<lparr>Query = ''family-name:Smith'', Start = 0, Rows = 10\<rparr>) ''start'' = None
   \<and> Get (searchValues \<lparr>Query = ''family-name:Smith'', Start = 0, Rows = 10\<rparr>) ''rows''
       = Some [''10'']
   \<and> buildSearchURL defaultClient \<lparr>Query = ''a b'', Start = 20, Rows = 0\<rparr>
     = ''https://pub.orcid.org/v3.0/search?q=a+b&rows=10&start=20''
   \<and> Get (searchValues \<lparr>Query = ''a b'', Start = 20, Rows = 0\<rparr>) ''rows'' = Some [''10'']"
proof -
  have q: "QueryEscape ''family-name:Smith'' = ''family-name%3ASmith''"
          "QueryEscape ''a b'' = ''a+b''"
    by code_simp+
  have d: "Sprintf_d 10 = ''10''" "Sprintf_d 20 = ''20''"
    by code_simp+
  have u: "apiURL defaultClient = ''https://pub.orcid.org/v3.0''"
    by (simp add: defaultClient_def DefaultAPIURL_def PublicHost_def)
  show ?thesis
    using buildSearchURL_parameters
            [of "\<lparr>Query = ''family-name:Smith'', Start = 0, Rows = 10\<rparr>" defaultClient]
          buildSearchURL_parameters [of "\<lparr>Query = ''a b'', Start = 20, Rows = 0\<rparr>" defaultClient]
    by (simp add: q d u)
qed

section \<open>Properties of the request executor\<close>

lemma sends_emit_Send [simp]: "sends (emit (Send r) w) = Suc (sends w)"
  by (simp add: sends_def emit_def)

lemma sends_emit_Backoff [simp]: "sends (emit (Backoff d) w) = sends w"
  by (simp add: sends_def emit_def)

lemma sends_emit_Permit [simp]: "sends (emit Permit w) = sends w"
  by (simp add: sends_def emit_def)

lemma sends_clock_update [simp]: "sends (w\<lparr>clock := n\<rparr>) = sends w"
  by (simp add: sends_def)

lemma trace_emit [simp]: "trace (emit ev w) = trace w @ [ev]"
  by (simp add: emit_def)

lemma clock_emit [simp]: "clock (emit ev w) = clock w"
  by (simp add: emit_def)

text \<open>One iteration of the loop whose outcome is retryable.\<close>

lemma retryLoop_first_retry:
  assumes "0 \<le> maxRetries c" "newRequestErr e method url = None"
    and "retryableOutcome (httpDo e (sends w) (newRequest c method url))"
  shows "retryLoop e c method url 0 lastErr w =
         retryLoop e c method url (Suc 0)
           (Some (causeOf (httpDo e (sends w) (newRequest c method url))))
           (emit (Send (newRequest c method url)) w)"
  using assms
  by (subst retryLoop.simps) (auto simp: Do_def split: sum.splits)

lemma retryLoop_retry:
  assumes "0 < a" "int a \<le> maxRetries c" "newRequestErr e method url = None"
    and "\<not> ctx_done e (clock w)"
    and "retryableOutcome (httpDo e (sends w) (newRequest c method url))"
  shows "retryLoop e c method url a lastErr w =
         retryLoop e c method url (Suc a)
           (Some (causeOf (httpDo e (sends w) (newRequest c method url))))
           (emit (Send (newRequest c method url))
              (emit (Backoff (int (a * a) * Second)) (w\<lparr>clock := Suc (clock w)\<rparr>)))"
  using assms
  by (subst retryLoop.simps) (auto simp: Do_def waitBackoff_def selectDone_def split: sum.splits)

lemma retryLoop_exhausted:
  "maxRetries c < int a \<Longrightarrow>
   retryLoop e c method url a lastErr w = (Inl (MaxRetriesExceeded lastErr), w)"
  by (subst retryLoop.simps) simp

lemma retryLoop_cancelled:
  assumes "0 < a" "int a \<le> maxRetries c" "ctx_done e (clock w)"
  shows "retryLoop e c method url a lastErr w = (Inl ContextDone, w\<lparr>clock := Suc (clock w)\<rparr>)"
  using assms
  by (subst retryLoop.simps) (simp add: waitBackoff_def selectDone_def)

lemma retryEvents_0 [simp]: "retryEvents req a 0 = []"
  by (simp add: retryEvents_def)

lemma retryEvents_Suc:
  "retryEvents req a (Suc n) = Backoff (int (a * a) * Second) # Send req # retryEvents req (Suc a) n"
proof -
  have "[a..<a + Suc n] = a # [Suc a..<Suc a + n]"
    by (simp add: upt_conv_Cons)
  then show ?thesis by (simp add: retryEvents_def)
qed

lemma retryEvents_snoc:
  "retryEvents req a (Suc n) =
     retryEvents req a n @ [Backoff (int ((a + n) * (a + n)) * Second), Send req]"
  by (simp add: retryEvents_def)

lemma sends_retried:
  "sends (w\<lparr>clock := k, trace := trace w @ retryEvents req a n\<rparr>) = sends w + n"
  by (induction n arbitrary: a) (simp_all add: sends_def retryEvents_snoc)

lemma retryLoop_retries:
  assumes "0 < a" "int (a + n) \<le> maxRetries c + 1" "newRequestErr e method url = None"
    and "\<forall>j<n. retryableOutcome (httpDo e (sends w + j) (newRequest c method url))"
    and "\<forall>j<n. \<not> ctx_done e (clock w + j)"
  shows "retryLoop e c method url a lastErr w =
         retryLoop e c method url (a + n)
           (if n = 0 then lastErr
            else Some (causeOf (httpDo e (sends w + (n - 1)) (newRequest c method url))))
           (w\<lparr>clock := clock w + n,
              trace := trace w @ retryEvents (newRequest c method url) a n\<rparr>)"
  using assms
proof (induction n arbitrary: a lastErr w)
  case 0
  then show ?case by simp
next
  case (Suc n)
  let ?req = "newRequest c method url"
  let ?w1 = "emit (Send ?req) (emit (Backoff (int (a * a) * Second)) (w\<lparr>clock := Suc (clock w)\<rparr>))"
  have r0: "retryableOutcome (httpDo e (sends w) ?req)" using Suc.prems(4) by force
  have c0: "\<not> ctx_done e (clock w)" using Suc.prems(5) by force
  have a_le: "int a \<le> maxRetries c" using Suc.prems(2) by simp
  have step: "retryLoop e c method url a lastErr w =
              retryLoop e c method url (Suc a) (Some (causeOf (httpDo e (sends w) ?req))) ?w1"
    by (rule retryLoop_retry [OF Suc.prems(1) a_le Suc.prems(3) c0 r0])
  have s1: "sends ?w1 = Suc (sends w)" by simp
  have k1: "clock ?w1 = Suc (clock w)" by simp
  have ih: "retryLoop e c method url (Suc a) (Some (causeOf (httpDo e (sends w) ?req))) ?w1 =
            retryLoop e c method url (Suc a + n)
              (if n = 0 then Some (causeOf (httpDo e (sends w) ?req))
               else Some (causeOf (httpDo e (sends ?w1 + (n - 1)) ?req)))
              (?w1\<lparr>clock := clock ?w1 + n, trace := trace ?w1 @ retryEvents ?req (Suc a) n\<rparr>)"
  proof (rule Suc.IH)
    show "0 < Suc a" by simp
    show "int (Suc a + n) \<le> maxRetries c + 1" using Suc.prems(2) by simp
    show "newRequestErr e method url = None" by (rule Suc.prems(3))
    show "\<forall>j<n. retryableOutcome (httpDo e (sends ?w1 + j) ?req)"
      using Suc.prems(4) by (simp only: s1) (metis Suc_less_eq add_Suc_shift)
    show "\<forall>j<n. \<not> ctx_done e (clock ?w1 + j)"
      using Suc.prems(5) by (simp only: k1) (metis Suc_less_eq add_Suc_shift)
  qed
  have le: "(if n = 0 then Some (causeOf (httpDo e (sends w) ?req))
             else Some (causeOf (httpDo e (sends ?w1 + (n - 1)) ?req)))
            = Some (causeOf (httpDo e (sends w + (Suc n - 1)) ?req))"
    by (cases n) simp_all
  have wd: "?w1\<lparr>clock := clock ?w1 + n, trace := trace ?w1 @ retryEvents ?req (Suc a) n\<rparr>
            = w\<lparr>clock := clock w + Suc n, trace := trace w @ retryEvents ?req a (Suc n)\<rparr>"
    by (simp add: emit_def retryEvents_Suc)
  show ?case using step ih le wd by simp
qed


lemma retryLoop_trace:
  "\<exists>rest. trace (snd (retryLoop e c method url a lastErr w)) = trace w @ rest
          \<and> (\<forall>ev\<in>set rest. \<not> isPermit ev)"
proof (induction e c "method" url a lastErr w rule: retryLoop.induct)
  case (1 e c "method" url attempt lastErr w)
  show ?case
  proof (cases "int attempt \<le> maxRetries c")
    case False
    then show ?thesis by (subst retryLoop.simps) simp
  next
    case True
    obtain d w1 where bk: "(if attempt > 0 then waitBackoff e (int (attempt * attempt) * Second) w
                            else (False, w)) = (d, w1)"
      by (cases "if attempt > 0 then waitBackoff e (int (attempt * attempt) * Second) w else (False, w)") auto
    have t1: "\<exists>r1. trace w1 = trace w @ r1 \<and> (\<forall>ev\<in>set r1. \<not> isPermit ev)"
      using bk by (auto simp: waitBackoff_def selectDone_def split: if_splits bool.splits)
    show ?thesis
    proof (cases d)
      case True
      with \<open>int attempt \<le> maxRetries c\<close> bk t1 show ?thesis
        by (subst retryLoop.simps) simp
    next
      case nd: False
      show ?thesis
      proof (cases "newRequestErr e method url")
        case (Some msg)
        with True bk nd t1 show ?thesis by (subst retryLoop.simps) simp
      next
        case None
        let ?req = "newRequest c method url"
        let ?w2 = "emit (Send ?req) w1"
        obtain r1 where r1: "trace w1 = trace w @ r1" "\<forall>ev\<in>set r1. \<not> isPermit ev"
          using t1 by blast
        have t2: "trace ?w2 = trace w @ (r1 @ [Send ?req])" "\<forall>ev\<in>set (r1 @ [Send ?req]). \<not> isPermit ev"
          using r1 by simp_all
        have D: "Do e ?req w1 = (httpDo e (sends w1) ?req, ?w2)" by (simp add: Do_def)
        show ?thesis
        proof (cases "httpDo e (sends w1) ?req")
          case (Inl msg)
          have eq: "retryLoop e c method url attempt lastErr w
                    = retryLoop e c method url (Suc attempt) (Some (TransportError msg)) ?w2"
            using True bk nd None D Inl by (subst retryLoop.simps) simp
          have "\<exists>rest. trace (snd (retryLoop e c method url (Suc attempt) (Some (TransportError msg)) ?w2))
                    = trace ?w2 @ rest \<and> (\<forall>ev\<in>set rest. \<not> isPermit ev)"
            using "1.IH"(1) [OF True bk [symmetric] _ None D [symmetric]] nd Inl by simp
          then obtain r2 where "trace (snd (retryLoop e c method url (Suc attempt) (Some (TransportError msg)) ?w2))
                    = trace ?w2 @ r2" "\<forall>ev\<in>set r2. \<not> isPermit ev" by blast
          then have "trace (snd (retryLoop e c method url attempt lastErr w)) = trace w @ (r1 @ [Send ?req] @ r2)
                     \<and> (\<forall>ev\<in>set (r1 @ [Send ?req] @ r2). \<not> isPermit ev)"
            using eq t2 by auto
          then show ?thesis by blast
        next
          case (Inr resp)
          show ?thesis
          proof (cases "StatusCode resp \<noteq> 200 \<and> (StatusCode resp = 429 \<or> StatusCode resp = 408
                               \<or> (StatusCode resp \<ge> 500 \<and> StatusCode resp < 600))")
            case False
            then have "snd (retryLoop e c method url attempt lastErr w) = ?w2"
              using True bk nd None D Inr by (subst retryLoop.simps) auto
            then show ?thesis using t2 by metis
          next
            case rt: True
            have eq: "retryLoop e c method url attempt lastErr w
                    = retryLoop e c method url (Suc attempt)
                        (Some (RetryableStatus (StatusCode resp) (Status resp))) ?w2"
              using True bk nd None D Inr rt by (subst retryLoop.simps) auto
            have "\<exists>rest. trace (snd (retryLoop e c method url (Suc attempt)
                        (Some (RetryableStatus (StatusCode resp) (Status resp))) ?w2))
                    = trace ?w2 @ rest \<and> (\<forall>ev\<in>set rest. \<not> isPermit ev)"
              using "1.IH"(2) [OF True bk [symmetric] _ None D [symmetric]] nd Inr rt by simp
            then obtain r2 where "trace (snd (retryLoop e c method url (Suc attempt)
                        (Some (RetryableStatus (StatusCode resp) (Status resp))) ?w2))
                    = trace ?w2 @ r2" "\<forall>ev\<in>set r2. \<not> isPermit ev" by blast
            then have "trace (snd (retryLoop e c method url attempt lastErr w)) = trace w @ (r1 @ [Send ?req] @ r2)
                     \<and> (\<forall>ev\<in>set (r1 @ [Send ?req] @ r2). \<not> isPermit ev)"
              using eq t2 by auto
            then show ?thesis by blast
          qed
        qed
      qed
    qed
  qed
qed

lemma sends_started [simp]: "sends (started c w) = sends w"
  by (simp add: started_def)

lemma clock_started: "clock (started c w) = clock w + (if rateLimiter c \<noteq> None then 1 else 0)"
  by (simp add: started_def)

lemma trace_started:
  "trace (started c w) = trace w @ (if rateLimiter c \<noteq> None then [Permit] else [])"
  by (simp add: started_def)

lemma sends_afterAttempts [simp]: "sends (afterAttempts req n w) = sends w + n"
proof (cases n)
  case 0
  then show ?thesis by (simp add: afterAttempts_def)
next
  case (Suc m)
  have "sends (w\<lparr>clock := clock w + m, trace := (trace w @ [Send req]) @ retryEvents req 1 m\<rparr>)
        = sends (w\<lparr>trace := trace w @ [Send req]\<rparr>) + m"
    using sends_retried [where w = "w\<lparr>trace := trace w @ [Send req]\<rparr>" and k = "clock w + m"
                          and req = req and a = 1 and n = m]
    by simp
  then show ?thesis using Suc by (simp add: afterAttempts_def sends_def)
qed

lemma clock_afterAttempts: "clock (afterAttempts req n w) = clock w + (n - 1)"
  by (simp add: afterAttempts_def)

lemma trace_afterAttempts:
  "trace (afterAttempts req n w)
     = trace w @ (if n = 0 then [] else Send req # retryEvents req 1 (n - 1))"
  by (simp add: afterAttempts_def)

lemma stepWorld_afterAttempts:
  "stepWorld req n (afterAttempts req n w) = afterAttempts req (Suc n) w"
proof (cases n)
  case 0
  then show ?thesis by (simp add: stepWorld_def afterAttempts_def emit_def)
next
  case (Suc m)
  then show ?thesis
    by (simp add: stepWorld_def afterAttempts_def emit_def retryEvents_snoc)
qed

lemma sends_stepWorld [simp]: "sends (stepWorld req a w) = Suc (sends w)"
  by (simp add: stepWorld_def)

text \<open>The start of \<open>doRequest\<close>.\<close>

lemma doRequest_start:
  assumes "bearerToken c \<noteq> []" "rateLimiter c \<noteq> None \<longrightarrow> \<not> ctx_done e (clock w)"
  shows "doRequest e c method url w = retryLoop e c method url 0 None (started c w)"
  using assms by (auto simp: doRequest_def started_def waitPermit_def selectDone_def)

lemma doRequest_permit_cancelled:
  assumes "bearerToken c \<noteq> []" "rateLimiter c \<noteq> None" "ctx_done e (clock w)"
  shows "doRequest e c method url w = (Inl ContextDone, w\<lparr>clock := Suc (clock w)\<rparr>)"
  using assms by (auto simp: doRequest_def waitPermit_def selectDone_def)

text \<open>The first \<open>n\<close> iterations, all with a retryable outcome and none cancelled.\<close>

lemma retryLoop_prefix:
  assumes "int n \<le> maxRetries c + 1" "newRequestErr e method url = None"
    and "\<forall>j<n. retryableOutcome (httpDo e (sends w + j) (newRequest c method url))"
    and "\<forall>j<n - 1. \<not> ctx_done e (clock w + j)"
  shows "retryLoop e c method url 0 None w =
         retryLoop e c method url n
           (if n = 0 then None
            else Some (causeOf (httpDo e (sends w + (n - 1)) (newRequest c method url))))
           (afterAttempts (newRequest c method url) n w)"
proof (cases n)
  case 0
  then show ?thesis by (simp add: afterAttempts_def)
next
  case (Suc m)
  let ?req = "newRequest c method url"
  let ?w1 = "emit (Send ?req) w"
  have R: "0 \<le> maxRetries c" using assms(1) Suc by simp
  have r0: "retryableOutcome (httpDo e (sends w) ?req)" using assms(3) Suc by force
  have first: "retryLoop e c method url 0 None w =
               retryLoop e c method url (Suc 0) (Some (causeOf (httpDo e (sends w) ?req))) ?w1"
    by (rule retryLoop_first_retry [OF R assms(2) r0])
  have rest: "retryLoop e c method url (Suc 0) (Some (causeOf (httpDo e (sends w) ?req))) ?w1 =
              retryLoop e c method url (Suc 0 + m)
                (if m = 0 then Some (causeOf (httpDo e (sends w) ?req))
                 else Some (causeOf (httpDo e (sends ?w1 + (m - 1)) ?req)))
                (?w1\<lparr>clock := clock ?w1 + m, trace := trace ?w1 @ retryEvents ?req (Suc 0) m\<rparr>)"
  proof (rule retryLoop_retries)
    show "0 < Suc 0" by simp
    show "int (Suc 0 + m) \<le> maxRetries c + 1" using assms(1) Suc by simp
    show "newRequestErr e method url = None" by (rule assms(2))
    show "\<forall>j<m. retryableOutcome (httpDo e (sends ?w1 + j) ?req)"
    proof (intro allI impI)
      fix j assume "j < m"
      then have "Suc j < n" using Suc by simp
      then have "retryableOutcome (httpDo e (sends w + Suc j) ?req)" using assms(3) by blast
      then show "retryableOutcome (httpDo e (sends ?w1 + j) ?req)" by simp
    qed
    show "\<forall>j<m. \<not> ctx_done e (clock ?w1 + j)"
      using assms(4) Suc by simp
  qed
  have le: "(if m = 0 then Some (causeOf (httpDo e (sends w) ?req))
             else Some (causeOf (httpDo e (sends ?w1 + (m - 1)) ?req)))
            = Some (causeOf (httpDo e (sends w + (n - 1)) ?req))"
    using Suc by (cases m) simp_all
  have wd: "?w1\<lparr>clock := clock ?w1 + m, trace := trace ?w1 @ retryEvents ?req (Suc 0) m\<rparr>
            = afterAttempts ?req n w"
    using Suc by (simp add: afterAttempts_def emit_def)
  show ?thesis using first rest le wd Suc by simp
qed

text \<open>One iteration that is not cancelled, whatever its outcome.\<close>

lemma retryLoop_attempt:
  assumes "int a \<le> maxRetries c" "a > 0 \<longrightarrow> \<not> ctx_done e (clock w)"
    and "newRequestErr e method url = None"
  shows "retryLoop e c method url a lastErr w =
     (case httpDo e (sends w) (newRequest c method url) of
        Inl msg \<Rightarrow> retryLoop e c method url (Suc a) (Some (TransportError msg))
                     (stepWorld (newRequest c method url) a w)
      | Inr resp \<Rightarrow>
          if StatusCode resp = 200 then (Inr resp, stepWorld (newRequest c method url) a w)
          else if StatusCode resp = 429 \<or> StatusCode resp = 408
                  \<or> (StatusCode resp \<ge> 500 \<and> StatusCode resp < 600)
          then retryLoop e c method url (Suc a)
                 (Some (RetryableStatus (StatusCode resp) (Status resp)))
                 (stepWorld (newRequest c method url) a w)
          else (Inl (HTTPError (StatusCode resp) (Status resp) (Body resp)),
                stepWorld (newRequest c method url) a w))"
  using assms
  by (subst retryLoop.simps)
     (auto simp: Do_def waitBackoff_def selectDone_def stepWorld_def split: sum.splits)

lemma retryLoop_sends_mono: "sends w \<le> sends (snd (retryLoop e c method url a lastErr w))"
proof -
  obtain rest where "trace (snd (retryLoop e c method url a lastErr w)) = trace w @ rest"
    using retryLoop_trace by blast
  then show ?thesis by (simp add: sends_def)
qed

lemma doRequest_reaches:
  assumes "bearerToken c \<noteq> []" "int n \<le> maxRetries c + 1" "newRequestErr e method url = None"
    and "\<forall>j<n. retryableOutcome (httpDo e (sends w + j) (newRequest c method url))"
    and "\<forall>j<(if rateLimiter c \<noteq> None then 1 else 0) + (n - 1). \<not> ctx_done e (clock w + j)"
  shows "doRequest e c method url w =
         retryLoop e c method url n
           (if n = 0 then None
            else Some (causeOf (httpDo e (sends w + (n - 1)) (newRequest c method url))))
           (afterAttempts (newRequest c method url) n (started c w))"
proof -
  have p: "rateLimiter c \<noteq> None \<longrightarrow> \<not> ctx_done e (clock w)"
    using assms(5) by (cases "rateLimiter c") auto
  have s: "doRequest e c method url w = retryLoop e c method url 0 None (started c w)"
    by (rule doRequest_start [OF assms(1) p])
  have c: "\<forall>j<n - 1. \<not> ctx_done e (clock (started c w) + j)"
  proof (intro allI impI)
    fix j assume "j < n - 1"
    then have "(if rateLimiter c \<noteq> None then 1 else 0) + j
               < (if rateLimiter c \<noteq> None then 1 else 0) + (n - 1)" by simp
    then have "\<not> ctx_done e (clock w + ((if rateLimiter c \<noteq> None then 1 else 0) + j))"
      using assms(5) by blast
    then show "\<not> ctx_done e (clock (started c w) + j)"
      by (simp add: clock_started add.assoc)
  qed
  have "retryLoop e c method url 0 None (started c w) =
        retryLoop e c method url n
          (if n = 0 then None
           else Some (causeOf (httpDo e (sends (started c w) + (n - 1)) (newRequest c method url))))
          (afterAttempts (newRequest c method url) n (started c w))"
    by (rule retryLoop_prefix [OF assms(2) assms(3) _ c]) (simp add: assms(4))
  then show ?thesis using s by simp
qed

text \<open>
  Claim C1.  With a bearer token, \<open>maxRetries = R \<ge> 0\<close>, a context that is never cancelled
  and a request that can be built: when every attempt has a retryable outcome, \<open>doRequest\<close>
  sends exactly \<open>R + 1\<close> requests and returns the error that wraps the cause of the last one;
  when the first \<open>k - 1\<close> attempts have a retryable outcome and attempt \<open>k \<le> R + 1\<close> is
  answered 200, it sends exactly \<open>k\<close> requests and returns that response.
\<close>

theorem doRequest_attempt_count:
  assumes "bearerToken c \<noteq> []" "0 \<le> maxRetries c" "\<forall>i. \<not> ctx_done e i"
    and "newRequestErr e method url = None"
  shows "((\<forall>j \<le> nat (maxRetries c).
             retryableOutcome (httpDo e (sends w + j) (newRequest c method url)))
          \<longrightarrow> (\<exists>w'. doRequest e c method url w =
                      (Inl (MaxRetriesExceeded (Some (causeOf
                         (httpDo e (sends w + nat (maxRetries c)) (newRequest c method url))))), w')
                   \<and> sends w' = sends w + nat (maxRetries c) + 1))
       \<and> (\<forall>k resp. 1 \<le> k \<and> int k \<le> maxRetries c + 1
             \<and> (\<forall>j<k - 1. retryableOutcome (httpDo e (sends w + j) (newRequest c method url)))
             \<and> httpDo e (sends w + (k - 1)) (newRequest c method url) = Inr resp
             \<and> StatusCode resp = 200
          \<longrightarrow> (\<exists>w'. doRequest e c method url w = (Inr resp, w') \<and> sends w' = sends w + k))"
proof (intro conjI impI allI)
  let ?req = "newRequest c method url"
  let ?n = "nat (maxRetries c) + 1"
  assume all: "\<forall>j \<le> nat (maxRetries c). retryableOutcome (httpDo e (sends w + j) ?req)"
  have n: "int ?n \<le> maxRetries c + 1" using assms(2) by simp
  have "doRequest e c method url w =
        retryLoop e c method url ?n
          (if ?n = 0 then None else Some (causeOf (httpDo e (sends w + (?n - 1)) ?req)))
          (afterAttempts ?req ?n (started c w))"
    by (rule doRequest_reaches [OF assms(1) n assms(4)]) (use all assms(3) in auto)
  also have "\<dots> = (Inl (MaxRetriesExceeded (Some (causeOf (httpDo e (sends w + nat (maxRetries c)) ?req)))),
                  afterAttempts ?req ?n (started c w))"
    using assms(2) by (subst retryLoop_exhausted) simp_all
  finally show "\<exists>w'. doRequest e c method url w =
                  (Inl (MaxRetriesExceeded (Some (causeOf
                     (httpDo e (sends w + nat (maxRetries c)) ?req)))), w')
               \<and> sends w' = sends w + nat (maxRetries c) + 1"
    by simp
next
  let ?req = "newRequest c method url"
  fix k resp
  assume h: "1 \<le> k \<and> int k \<le> maxRetries c + 1
             \<and> (\<forall>j<k - 1. retryableOutcome (httpDo e (sends w + j) ?req))
             \<and> httpDo e (sends w + (k - 1)) ?req = Inr resp \<and> StatusCode resp = 200"
  let ?n = "k - 1"
  let ?W = "afterAttempts ?req ?n (started c w)"
  have n: "int ?n \<le> maxRetries c + 1" using h by simp
  have a: "int ?n \<le> maxRetries c" using h by auto
  have "doRequest e c method url w =
        retryLoop e c method url ?n
          (if ?n = 0 then None else Some (causeOf (httpDo e (sends w + (?n - 1)) ?req))) ?W"
    by (rule doRequest_reaches [OF assms(1) n assms(4)]) (use h assms(3) in auto)
  also have "\<dots> = (Inr resp, stepWorld ?req ?n ?W)"
  proof -
    have sW: "sends ?W = sends w + (k - 1)"
      by (simp only: sends_afterAttempts sends_started)
    have o: "httpDo e (sends ?W) ?req = Inr resp" unfolding sW using h by blast
    have nc: "?n > 0 \<longrightarrow> \<not> ctx_done e (clock ?W)" using assms(3) by simp
    show ?thesis unfolding retryLoop_attempt [OF a nc assms(4)] o using h by simp
  qed
  finally have "doRequest e c method url w = (Inr resp, afterAttempts ?req (Suc ?n) (started c w))"
    by (simp add: stepWorld_afterAttempts)
  moreover have "sends (afterAttempts ?req (Suc ?n) (started c w)) = sends w + k"
    using h by simp
  ultimately show "\<exists>w'. doRequest e c method url w = (Inr resp, w') \<and> sends w' = sends w + k"
    by blast
qed

lemma sends_world0 [simp]: "sends world0 = 0"
  by (simp add: sends_def world0_def)

lemmas example_defs = quietEnv_def testClient_def defaultClient_def response_def
  alwaysStatus_def failingFirst_def newRequest_def

theorem doRequest_attempt_count_witness:
  "(\<exists>w'. doRequest (quietEnv (alwaysStatus 503 ''503 Service Unavailable'' [])) (testClient 2)
            ''GET'' ''http://127.0.0.1/v3.0/0000-0002-1825-0097/record'' world0
          = (Inl (MaxRetriesExceeded (Some (RetryableStatus 503 ''503 Service Unavailable''))), w')
        \<and> sends w' = 3)
   \<and> (\<exists>w'. doRequest (quietEnv (failingFirst 2)) (testClient 3)
            ''GET'' ''http://127.0.0.1/v3.0/0000-0002-1825-0097/record'' world0
          = (Inr (response 200 ''200 OK'' ''{}''), w')
        \<and> sends w' = 3)"
proof -
  let ?u = "''http://127.0.0.1/v3.0/0000-0002-1825-0097/record''"
  let ?e1 = "quietEnv (alwaysStatus 503 ''503 Service Unavailable'' [])"
  let ?e2 = "quietEnv (failingFirst 2)"
  have A: "\<exists>w'. doRequest ?e1 (testClient 2) ''GET'' ?u world0
          = (Inl (MaxRetriesExceeded (Some (RetryableStatus 503 ''503 Service Unavailable''))), w')
        \<and> sends w' = 3"
    using doRequest_attempt_count [of "testClient 2" ?e1 "''GET''" ?u world0, THEN conjunct1]
    by (simp add: example_defs numeral_3_eq_3)
  have B: "\<exists>w'. doRequest ?e2 (testClient 3) ''GET'' ?u world0
          = (Inr (response 200 ''200 OK'' ''{}''), w') \<and> sends w' = 3"
    using doRequest_attempt_count [of "testClient 3" ?e2 "''GET''" ?u world0, THEN conjunct2,
            THEN spec, THEN spec, of 3 "response 200 ''200 OK'' ''{}''"]
    by (simp add: example_defs numeral_3_eq_3)
  show ?thesis using A B by blast
qed

lemma retryLoop_sends_attempt:
  assumes "int a \<le> maxRetries c" "a > 0 \<longrightarrow> \<not> ctx_done e (clock w)"
    and "newRequestErr e method url = None"
  shows "Suc (sends w) \<le> sends (snd (retryLoop e c method url a lastErr w))"
proof -
  let ?req = "newRequest c method url"
  let ?w2 = "stepWorld ?req a w"
  have m: "\<And>le. Suc (sends w) \<le> sends (snd (retryLoop e c method url (Suc a) le ?w2))"
    using retryLoop_sends_mono [of ?w2 e c "method" url "Suc a"] by simp
  show ?thesis
    unfolding retryLoop_attempt [OF assms]
    using m by (auto split: sum.splits)
qed

text \<open>
  Claim C2.  Let the first \<open>k - 1\<close> attempts have a retryable outcome and let attempt \<open>k\<close>
  (within the budget, the context never cancelled) be answered by a response.  With status
  200, \<open>doRequest\<close> returns that response after exactly \<open>k\<close> requests.  With a status
  other than 200, 429, 408 and 5xx (other 2xx codes included) it returns, after exactly \<open>k\<close>
  requests, the error that holds the status code, the status text and the body.  With status
  429, 408 or 5xx it goes on: another request is sent when a retry is left, and when none is
  left the error returned is the one for exhausted retries, wrapping that status.
\<close>

theorem doRequest_status_classes:
  assumes "bearerToken c \<noteq> []" "\<forall>i. \<not> ctx_done e i" "newRequestErr e method url = None"
    and "1 \<le> k" "int k \<le> maxRetries c + 1"
    and "\<forall>j<k - 1. retryableOutcome (httpDo e (sends w + j) (newRequest c method url))"
    and "httpDo e (sends w + (k - 1)) (newRequest c method url) = Inr resp"
  shows "(StatusCode resp = 200
            \<longrightarrow> (\<exists>w'. doRequest e c method url w = (Inr resp, w') \<and> sends w' = sends w + k))
       \<and> (StatusCode resp \<noteq> 200 \<and> StatusCode resp \<noteq> 429 \<and> StatusCode resp \<noteq> 408
            \<and> \<not> (500 \<le> StatusCode resp \<and> StatusCode resp < 600)
            \<longrightarrow> (\<exists>w'. doRequest e c method url w
                        = (Inl (HTTPError (StatusCode resp) (Status resp) (Body resp)), w')
                      \<and> sends w' = sends w + k))
       \<and> (StatusCode resp = 429 \<or> StatusCode resp = 408
            \<or> (500 \<le> StatusCode resp \<and> StatusCode resp < 600)
            \<longrightarrow> (int k \<le> maxRetries c
                    \<longrightarrow> (\<exists>r w'. doRequest e c method url w = (r, w') \<and> sends w + k + 1 \<le> sends w'))
                \<and> (int k = maxRetries c + 1
                    \<longrightarrow> (\<exists>w'. doRequest e c method url w
                               = (Inl (MaxRetriesExceeded
                                        (Some (RetryableStatus (StatusCode resp) (Status resp)))), w')
                             \<and> sends w' = sends w + k)))"
proof -
  let ?req = "newRequest c method url"
  let ?n = "k - 1"
  let ?W = "afterAttempts ?req ?n (started c w)"
  let ?W' = "afterAttempts ?req k (started c w)"
  have n: "int ?n \<le> maxRetries c + 1" using assms(5) by simp
  have a: "int ?n \<le> maxRetries c" using assms(4,5) by auto
  have reach: "doRequest e c method url w =
        retryLoop e c method url ?n
          (if ?n = 0 then None else Some (causeOf (httpDo e (sends w + (?n - 1)) ?req))) ?W"
    by (rule doRequest_reaches [OF assms(1) n assms(3)]) (use assms(2,6) in auto)
  have sW: "sends ?W = sends w + (k - 1)"
    by (simp only: sends_afterAttempts sends_started)
  have o: "httpDo e (sends ?W) ?req = Inr resp" unfolding sW using assms(7) by blast
  have nc: "?n > 0 \<longrightarrow> \<not> ctx_done e (clock ?W)" using assms(2) by simp
  have step: "stepWorld ?req ?n ?W = ?W'"
    using assms(4) stepWorld_afterAttempts [of ?req ?n "started c w"] by simp
  have sW': "sends ?W' = sends w + k" by simp
  have unf: "doRequest e c method url w =
       (if StatusCode resp = 200 then (Inr resp, ?W')
        else if StatusCode resp = 429 \<or> StatusCode resp = 408
                \<or> (StatusCode resp \<ge> 500 \<and> StatusCode resp < 600)
        then retryLoop e c method url (Suc ?n)
               (Some (RetryableStatus (StatusCode resp) (Status resp))) ?W'
        else (Inl (HTTPError (StatusCode resp) (Status resp) (Body resp)), ?W'))"
    unfolding reach retryLoop_attempt [OF a nc assms(3)] o step by simp
  have k: "Suc ?n = k" using assms(4) by simp
  have ok: "StatusCode resp = 200
            \<longrightarrow> (\<exists>w'. doRequest e c method url w = (Inr resp, w') \<and> sends w' = sends w + k)"
    using unf sW' by auto
  have terminal: "StatusCode resp \<noteq> 200 \<and> StatusCode resp \<noteq> 429 \<and> StatusCode resp \<noteq> 408
            \<and> \<not> (500 \<le> StatusCode resp \<and> StatusCode resp < 600)
            \<longrightarrow> (\<exists>w'. doRequest e c method url w
                        = (Inl (HTTPError (StatusCode resp) (Status resp) (Body resp)), w')
                      \<and> sends w' = sends w + k)"
    using unf sW' by auto
  have retry: "StatusCode resp = 429 \<or> StatusCode resp = 408
            \<or> (500 \<le> StatusCode resp \<and> StatusCode resp < 600)
            \<longrightarrow> doRequest e c method url w
                  = retryLoop e c method url k
                      (Some (RetryableStatus (StatusCode resp) (Status resp))) ?W'"
    using unf k by auto
  have more: "int k \<le> maxRetries c \<longrightarrow>
              sends w + k + 1 \<le> sends (snd (retryLoop e c method url k
                      (Some (RetryableStatus (StatusCode resp) (Status resp))) ?W'))"
  proof
    assume kk: "int k \<le> maxRetries c"
    have "k > 0 \<longrightarrow> \<not> ctx_done e (clock ?W')" using assms(2) by simp
    from retryLoop_sends_attempt [OF kk this assms(3)] show
      "sends w + k + 1 \<le> sends (snd (retryLoop e c method url k
                      (Some (RetryableStatus (StatusCode resp) (Status resp))) ?W'))"
      using sW' by simp
  qed
  have spent: "int k = maxRetries c + 1 \<longrightarrow>
               retryLoop e c method url k
                      (Some (RetryableStatus (StatusCode resp) (Status resp))) ?W'
               = (Inl (MaxRetriesExceeded (Some (RetryableStatus (StatusCode resp) (Status resp)))), ?W')"
    by (simp add: retryLoop_exhausted)
  have again: "StatusCode resp = 429 \<or> StatusCode resp = 408
            \<or> (500 \<le> StatusCode resp \<and> StatusCode resp < 600)
            \<longrightarrow> (int k \<le> maxRetries c
                    \<longrightarrow> (\<exists>r w'. doRequest e c method url w = (r, w') \<and> sends w + k + 1 \<le> sends w'))
                \<and> (int k = maxRetries c + 1
                    \<longrightarrow> (\<exists>w'. doRequest e c method url w
                               = (Inl (MaxRetriesExceeded
                                        (Some (RetryableStatus (StatusCode resp) (Status resp)))), w')
                             \<and> sends w' = sends w + k))"
  proof (intro impI conjI)
    assume r: "StatusCode resp = 429 \<or> StatusCode resp = 408
            \<or> (500 \<le> StatusCode resp \<and> StatusCode resp < 600)"
    assume kk: "int k \<le> maxRetries c"
    show "\<exists>r w'. doRequest e c method url w = (r, w') \<and> sends w + k + 1 \<le> sends w'"
      using retry r more kk by (metis prod.collapse)
  next
    assume r: "StatusCode resp = 429 \<or> StatusCode resp = 408
            \<or> (500 \<le> StatusCode resp \<and> StatusCode resp < 600)"
    assume kk: "int k = maxRetries c + 1"
    show "\<exists>w'. doRequest e c method url w
                               = (Inl (MaxRetriesExceeded
                                        (Some (RetryableStatus (StatusCode resp) (Status resp)))), w')
                             \<and> sends w' = sends w + k"
      using retry r spent kk sW' by auto
  qed
  show ?thesis using ok terminal again by blast
qed

theorem doRequest_status_classes_witness:
  "(\<exists>w'. doRequest (quietEnv (alwaysStatus 200 ''200 OK'' ''{}'')) (testClient 3)
            ''GET'' ''http://127.0.0.1/v3.0/0000-0002-1825-0097/record'' world0
          = (Inr (response 200 ''200 OK'' ''{}''), w') \<and> sends w' = 1)
   \<and> (\<exists>w'. doRequest (quietEnv (alwaysStatus 404 ''404 Not Found'' ''not found'')) (testClient 3)
            ''GET'' ''http://127.0.0.1/v3.0/0000-0002-1825-0097/record'' world0
          = (Inl (HTTPError 404 ''404 Not Found'' ''not found''), w') \<and> sends w' = 1)
   \<and> (\<exists>w'. doRequest (quietEnv (alwaysStatus 201 ''201 Created'' ''created'')) (testClient 3)
            ''GET'' ''http://127.0.0.1/v3.0/0000-0002-1825-0097/record'' world0
          = (Inl (HTTPError 201 ''201 Created'' ''created''), w') \<and> sends w' = 1)
   \<and> (\<exists>r w'. doRequest (quietEnv (alwaysStatus 500 ''500 Internal Server Error'' [])) (testClient 3)
            ''GET'' ''http://127.0.0.1/v3.0/0000-0002-1825-0097/record'' world0
          = (r, w') \<and> 2 \<le> sends w')
   \<and> (\<exists>w'. doRequest (quietEnv (alwaysStatus 500 ''500 Internal Server Error'' [])) (testClient 0)
            ''GET'' ''http://127.0.0.1/v3.0/0000-0002-1825-0097/record'' world0
          = (Inl (MaxRetriesExceeded (Some (RetryableStatus 500 ''500 Internal Server Error''))), w')
        \<and> sends w' = 1)"
proof -
  let ?u = "''http://127.0.0.1/v3.0/0000-0002-1825-0097/record''"
  have A: "\<exists>w'. doRequest (quietEnv (alwaysStatus 200 ''200 OK'' ''{}'')) (testClient 3) ''GET'' ?u world0
          = (Inr (response 200 ''200 OK'' ''{}''), w') \<and> sends w' = 1"
    using doRequest_status_classes [of "testClient 3" "quietEnv (alwaysStatus 200 ''200 OK'' ''{}'')"
            "''GET''" ?u 1 world0 "response 200 ''200 OK'' ''{}''"]
    by (simp add: example_defs)
  have B: "\<exists>w'. doRequest (quietEnv (alwaysStatus 404 ''404 Not Found'' ''not found'')) (testClient 3)
            ''GET'' ?u world0
          = (Inl (HTTPError 404 ''404 Not Found'' ''not found''), w') \<and> sends w' = 1"
    using doRequest_status_classes [of "testClient 3"
            "quietEnv (alwaysStatus 404 ''404 Not Found'' ''not found'')"
            "''GET''" ?u 1 world0 "response 404 ''404 Not Found'' ''not found''"]
    by (simp add: example_defs)
  have C: "\<exists>w'. doRequest (quietEnv (alwaysStatus 201 ''201 Created'' ''created'')) (testClient 3)
            ''GET'' ?u world0
          = (Inl (HTTPError 201 ''201 Created'' ''created''), w') \<and> sends w' = 1"
    using doRequest_status_classes [of "testClient 3"
            "quietEnv (alwaysStatus 201 ''201 Created'' ''created'')"
            "''GET''" ?u 1 world0 "response 201 ''201 Created'' ''created''"]
    by (simp add: example_defs)
  have D: "\<exists>r w'. doRequest (quietEnv (alwaysStatus 500 ''500 Internal Server Error'' [])) (testClient 3)
            ''GET'' ?u world0 = (r, w') \<and> 2 \<le> sends w'"
    using doRequest_status_classes [of "testClient 3"
            "quietEnv (alwaysStatus 500 ''500 Internal Server Error'' [])"
            "''GET''" ?u 1 world0 "response 500 ''500 Internal Server Error'' []"]
    by (simp add: example_defs numeral_2_eq_2)
  have E: "\<exists>w'. doRequest (quietEnv (alwaysStatus 500 ''500 Internal Server Error'' [])) (testClient 0)
            ''GET'' ?u world0
          = (Inl (MaxRetriesExceeded (Some (RetryableStatus 500 ''500 Internal Server Error''))), w')
        \<and> sends w' = 1"
    using doRequest_status_classes [of "testClient 0"
            "quietEnv (alwaysStatus 500 ''500 Internal Server Error'' [])"
            "''GET''" ?u 1 world0 "response 500 ''500 Internal Server Error'' []"]
    by (simp add: example_defs)
  show ?thesis using A B C D E by blast
qed

section \<open>The missing credential\<close>

text \<open>
  Claim C4.  With an empty bearer token \<open>doRequest\<close> returns the error for the missing
  credential and leaves the world as it was: no permit has been awaited (the cancellation
  signal has not even been consulted) and nothing has been handed to the transport.  So do a
  fetch and a search; an advance of the iterator that reaches its fetch only polls the
  context before, records that error and sends nothing.
\<close>

theorem missing_token_no_io:
  assumes "bearerToken c = []"
  shows "doRequest e c method url w = (Inl MissingBearerToken, w)
       \<and> GetRecordRaw e c orcidID w = (Inl MissingBearerToken, w)
       \<and> Search e c sp w = (Inl MissingBearerToken, w)
       \<and> (\<not> ctx_done e (clock w)
            \<longrightarrow> Next e (SearchIter c sp) w
                = (False, (SearchIter c sp)\<lparr>err := Some MissingBearerToken\<rparr>,
                   w\<lparr>clock := Suc (clock w)\<rparr>))"
proof -
  have d: "\<And>u v. doRequest e c ''GET'' u v = (Inl MissingBearerToken, v)"
          "doRequest e c method url w = (Inl MissingBearerToken, w)"
    using assms by (simp_all add: doRequest_def)
  have g: "GetRecordRaw e c orcidID w = (Inl MissingBearerToken, w)"
    by (simp add: GetRecordRaw_def d Let_def)
  have s: "\<And>v. Search e c sp v = (Inl MissingBearerToken, v)"
    by (simp add: Search_def d Let_def)
  have n: "\<not> ctx_done e (clock w)
            \<longrightarrow> Next e (SearchIter c sp) w
                = (False, (SearchIter c sp)\<lparr>err := Some MissingBearerToken\<rparr>,
                   w\<lparr>clock := Suc (clock w)\<rparr>)"
    by (simp add: Next_def SearchIter_def selectDone_def fetchBatch_def s)
  show ?thesis using d(2) g s n by blast
qed

theorem missing_token_no_io_witness:
  "(\<exists>c. NewClient [] = Inr c
        \<and> GetRecordRaw (quietEnv (alwaysStatus 200 ''200 OK'' ''{}'')) c ''0000-0002-1825-0097'' world0
          = (Inl MissingBearerToken, world0))
   \<and> sends world0 = 0
   \<and> Next (quietEnv (alwaysStatus 200 ''200 OK'' ''{}''))
        (SearchIter defaultClient \<lparr>Query = ''test'', Start = 0, Rows = 10\<rparr>) world0
     = (False,
        (SearchIter defaultClient \<lparr>Query = ''test'', Start = 0, Rows = 10\<rparr>)
          \<lparr>err := Some MissingBearerToken\<rparr>,
        world0\<lparr>clock := 1\<rparr>)"
proof -
  let ?e = "quietEnv (alwaysStatus 200 ''200 OK'' ''{}'')"
  let ?c = "defaultClient\<lparr>rateLimiter := Some \<lparr>period = 100000000\<rparr>\<rparr>"
  have c: "NewClient [] = Inr ?c"
    by (simp add: NewClient_def defaultClient_def DefaultRateLimit_def NewTicker_def Second_def)
  have t: "bearerToken ?c = []" "bearerToken defaultClient = []"
    by (simp_all add: defaultClient_def)
  have g: "GetRecordRaw ?e ?c ''0000-0002-1825-0097'' world0 = (Inl MissingBearerToken, world0)"
    using missing_token_no_io [OF t(1), of ?e] by blast
  have n: "Next ?e (SearchIter defaultClient \<lparr>Query = ''test'', Start = 0, Rows = 10\<rparr>) world0
     = (False,
        (SearchIter defaultClient \<lparr>Query = ''test'', Start = 0, Rows = 10\<rparr>)
          \<lparr>err := Some MissingBearerToken\<rparr>,
        world0\<lparr>clock := 1\<rparr>)"
    using missing_token_no_io [OF t(2), of ?e _ _ world0 _ "\<lparr>Query = ''test'', Start = 0, Rows = 10\<rparr>"]
    by (simp add: quietEnv_def world0_def)
  show ?thesis using c g n by simp
qed

section \<open>Backoff\<close>

lemma trace_stepWorld:
  "trace (stepWorld req a w)
     = trace w @ (if a > 0 then [Backoff (int (a * a) * Second)] else []) @ [Send req]"
  by (simp add: stepWorld_def)

lemma retryLoop_trace_attempt:
  assumes "int a \<le> maxRetries c" "a > 0 \<longrightarrow> \<not> ctx_done e (clock w)"
    and "newRequestErr e method url = None"
  shows "\<exists>rest. trace (snd (retryLoop e c method url a lastErr w))
                = trace (stepWorld (newRequest c method url) a w) @ rest"
proof -
  let ?req = "newRequest c method url"
  let ?w2 = "stepWorld ?req a w"
  have m: "\<And>le. \<exists>rest. trace (snd (retryLoop e c method url (Suc a) le ?w2)) = trace ?w2 @ rest"
    using retryLoop_trace [of e c "method" url "Suc a" _ ?w2] by blast
  show ?thesis
    unfolding retryLoop_attempt [OF assms]
    using m by (auto split: sum.splits)
qed

text \<open>
  Claim C5.  Let the first \<open>k \<ge> 1\<close> attempts have a retryable outcome, with a retry left
  after them and no cancellation before.  The trace of the call then shows, after the permit
  (if the client has a limiter), the first request, and for \<open>j = 1, ..., k - 1\<close> a backoff of
  \<open>j * j\<close> seconds followed by a request.  If the signal does not fire during the next
  wait, a backoff of \<open>k * k\<close> seconds and request \<open>k + 1\<close> follow; if it fires, the call
  returns the error of the context and the trace ends with request \<open>k\<close>.
\<close>

theorem backoff_between_attempts:
  assumes "bearerToken c \<noteq> []" "newRequestErr e method url = None"
    and "1 \<le> k" "int k \<le> maxRetries c"
    and "\<forall>j<k. retryableOutcome (httpDo e (sends w + j) (newRequest c method url))"
    and "\<forall>j<(if rateLimiter c \<noteq> None then 1 else 0) + (k - 1). \<not> ctx_done e (clock w + j)"
  shows "(\<not> ctx_done e (clock w + (if rateLimiter c \<noteq> None then 1 else 0) + (k - 1))
          \<longrightarrow> (\<exists>r w' rest. doRequest e c method url w = (r, w')
                 \<and> trace w' = trace w @ (if rateLimiter c \<noteq> None then [Permit] else [])
                       @ Send (newRequest c method url)
                         # retryEvents (newRequest c method url) 1 (k - 1)
                       @ [Backoff (int (k * k) * Second), Send (newRequest c method url)] @ rest))
       \<and> (ctx_done e (clock w + (if rateLimiter c \<noteq> None then 1 else 0) + (k - 1))
          \<longrightarrow> (\<exists>w'. doRequest e c method url w = (Inl ContextDone, w')
                 \<and> trace w' = trace w @ (if rateLimiter c \<noteq> None then [Permit] else [])
                       @ Send (newRequest c method url)
                         # retryEvents (newRequest c method url) 1 (k - 1)
                 \<and> sends w' = sends w + k))"
proof -
  let ?req = "newRequest c method url"
  let ?p = "if rateLimiter c \<noteq> None then 1 else 0 :: nat"
  let ?W = "afterAttempts ?req k (started c w)"
  have n: "int k \<le> maxRetries c + 1" using assms(4) by simp
  have reach: "doRequest e c method url w =
        retryLoop e c method url k
          (if k = 0 then None else Some (causeOf (httpDo e (sends w + (k - 1)) ?req))) ?W"
    by (rule doRequest_reaches [OF assms(1) n assms(2) assms(5) assms(6)])
  have kpos: "0 < k" using assms(3) by simp
  have cW: "clock ?W = clock w + ?p + (k - 1)"
    by (simp add: clock_afterAttempts clock_started)
  have tW: "trace ?W = trace w @ (if rateLimiter c \<noteq> None then [Permit] else [])
                       @ Send ?req # retryEvents ?req 1 (k - 1)"
    using kpos by (simp add: trace_afterAttempts trace_started)
  have go: "\<not> ctx_done e (clock w + ?p + (k - 1))
          \<longrightarrow> (\<exists>r w' rest. doRequest e c method url w = (r, w')
                 \<and> trace w' = trace ?W @ [Backoff (int (k * k) * Second), Send ?req] @ rest)"
  proof
    assume "\<not> ctx_done e (clock w + ?p + (k - 1))"
    then have nc: "k > 0 \<longrightarrow> \<not> ctx_done e (clock ?W)" unfolding cW by blast
    obtain rest where "trace (snd (retryLoop e c method url k
          (if k = 0 then None else Some (causeOf (httpDo e (sends w + (k - 1)) ?req))) ?W))
          = trace (stepWorld ?req k ?W) @ rest"
      using retryLoop_trace_attempt [OF assms(4) nc assms(2)] by blast
    then have "trace (snd (doRequest e c method url w))
               = trace ?W @ [Backoff (int (k * k) * Second), Send ?req] @ rest"
      using reach kpos by (simp add: trace_stepWorld)
    then show "\<exists>r w' rest. doRequest e c method url w = (r, w')
                 \<and> trace w' = trace ?W @ [Backoff (int (k * k) * Second), Send ?req] @ rest"
      by (metis prod.collapse)
  qed
  have stop: "ctx_done e (clock w + ?p + (k - 1))
          \<longrightarrow> (\<exists>w'. doRequest e c method url w = (Inl ContextDone, w')
                 \<and> trace w' = trace ?W \<and> sends w' = sends w + k)"
  proof
    assume "ctx_done e (clock w + ?p + (k - 1))"
    then have d: "ctx_done e (clock ?W)" unfolding cW by blast
    have "doRequest e c method url w = (Inl ContextDone, ?W\<lparr>clock := Suc (clock ?W)\<rparr>)"
      unfolding reach by (rule retryLoop_cancelled [OF kpos assms(4) d])
    moreover have "trace (?W\<lparr>clock := Suc (clock ?W)\<rparr>) = trace ?W" by simp
    moreover have "sends (?W\<lparr>clock := Suc (clock ?W)\<rparr>) = sends w + k" by simp
    ultimately show "\<exists>w'. doRequest e c method url w = (Inl ContextDone, w')
                 \<and> trace w' = trace ?W \<and> sends w' = sends w + k"
      by blast
  qed
  show ?thesis using go stop unfolding tW by simp
qed

theorem backoff_between_attempts_witness:
  "(\<exists>r w' rest.
      doRequest (quietEnv (alwaysStatus 503 ''503 Service Unavailable'' [])) (testClient 3)
        ''GET'' ''http://127.0.0.1/v3.0/0000-0002-1825-0097/record'' world0 = (r, w')
      \<and> trace w' =
          [Send (newRequest (testClient 3) ''GET''
                   ''http://127.0.0.1/v3.0/0000-0002-1825-0097/record''),
           Backoff Second,
           Send (newRequest (testClient 3) ''GET''
                   ''http://127.0.0.1/v3.0/0000-0002-1825-0097/record''),
           Backoff (4 * Second),
           Send (newRequest (testClient 3) ''GET''
                   ''http://127.0.0.1/v3.0/0000-0002-1825-0097/record'')] @ rest)
   \<and> (\<exists>w'.
      doRequest (cancelledFrom 1 (alwaysStatus 503 ''503 Service Unavailable'' [])) (testClient 3)
        ''GET'' ''http://127.0.0.1/v3.0/0000-0002-1825-0097/record'' world0 = (Inl ContextDone, w')
      \<and> trace w' =
          [Send (newRequest (testClient 3) ''GET''
                   ''http://127.0.0.1/v3.0/0000-0002-1825-0097/record''),
           Backoff Second,
           Send (newRequest (testClient 3) ''GET''
                   ''http://127.0.0.1/v3.0/0000-0002-1825-0097/record'')]
      \<and> sends w' = 2)"
proof -
  let ?u = "''http://127.0.0.1/v3.0/0000-0002-1825-0097/record''"
  let ?t = "alwaysStatus 503 ''503 Service Unavailable'' []"
  let ?req = "newRequest (testClient 3) ''GET'' ?u"
  have ev: "retryEvents ?req (Suc 0) (Suc 0) = [Backoff Second, Send ?req]"
    by (simp add: retryEvents_def)
  have c: "bearerToken (testClient 3) \<noteq> []" "maxRetries (testClient 3) = 3"
          "rateLimiter (testClient 3) = None"
    by (simp_all add: testClient_def defaultClient_def)
  have q: "newRequestErr (quietEnv ?t) ''GET'' ?u = None" "\<And>i. \<not> ctx_done (quietEnv ?t) i"
          "\<And>i r. httpDo (quietEnv ?t) i r = Inr (response 503 ''503 Service Unavailable'' [])"
    by (simp_all add: quietEnv_def alwaysStatus_def)
  have x: "\<And>n. newRequestErr (cancelledFrom n ?t) ''GET'' ?u = None"
          "\<And>n i. ctx_done (cancelledFrom n ?t) i = (n \<le> i)"
          "\<And>n i r. httpDo (cancelledFrom n ?t) i r = Inr (response 503 ''503 Service Unavailable'' [])"
    by (simp_all add: cancelledFrom_def quietEnv_def alwaysStatus_def)
  have r: "StatusCode (response 503 ''503 Service Unavailable'' []) = 503"
    by (simp add: response_def)
  have A: "\<exists>r w' rest. doRequest (quietEnv ?t) (testClient 3) ''GET'' ?u world0 = (r, w')
      \<and> trace w' = [Send ?req, Backoff Second, Send ?req, Backoff (4 * Second), Send ?req] @ rest"
    using backoff_between_attempts [of "testClient 3" "quietEnv ?t" "''GET''" ?u 2 world0, THEN conjunct1]
    by (simp add: c q r ev world0_def)
  have B: "\<exists>w'. doRequest (cancelledFrom 1 ?t) (testClient 3) ''GET'' ?u world0 = (Inl ContextDone, w')
      \<and> trace w' = [Send ?req, Backoff Second, Send ?req] \<and> sends w' = 2"
    using backoff_between_attempts [of "testClient 3" "cancelledFrom 1 ?t" "''GET''" ?u 2 world0,
            THEN conjunct2]
    by (simp add: c x r ev world0_def sends_def numeral_2_eq_2)
  show ?thesis using A B by blast
qed

section \<open>Rate limiting\<close>

lemma applyOption_rate:
  assumes "applyOption opt c = Inr c1"
  shows "(\<forall>n. opt = WithRateLimit n \<longrightarrow> n \<le> 0) \<longrightarrow>
           rateLimiter c1 = rateLimiter c
           \<and> (if \<exists>n. opt = WithRateLimit n then rateLimit c1 \<le> 0 else rateLimit c1 = rateLimit c)"
  using assms by (cases opt) (auto simp: Let_def split: if_splits sum.splits)

lemma applyOptions_rate:
  assumes "applyOptions opts c = Inr c1" "\<forall>n. WithRateLimit n \<in> set opts \<longrightarrow> n \<le> 0"
  shows "rateLimiter c1 = rateLimiter c
         \<and> (if \<exists>n. WithRateLimit n \<in> set opts then rateLimit c1 \<le> 0
            else rateLimit c1 = rateLimit c)"
  using assms
proof (induction opts arbitrary: c)
  case Nil
  then show ?case by simp
next
  case (Cons opt opts)
  from Cons.prems(1) obtain c2 where o: "applyOption opt c = Inr c2"
      and r: "applyOptions opts c2 = Inr c1"
    by (auto split: sum.splits)
  have h: "\<forall>n. opt = WithRateLimit n \<longrightarrow> n \<le> 0" using Cons.prems(2) by auto
  have s: "rateLimiter c2 = rateLimiter c
           \<and> (if \<exists>n. opt = WithRateLimit n then rateLimit c2 \<le> 0 else rateLimit c2 = rateLimit c)"
    using applyOption_rate [OF o] h by blast
  have t: "\<forall>n. WithRateLimit n \<in> set opts \<longrightarrow> n \<le> 0" using Cons.prems(2) by auto
  have ih: "rateLimiter c1 = rateLimiter c2
         \<and> (if \<exists>n. WithRateLimit n \<in> set opts then rateLimit c1 \<le> 0
            else rateLimit c1 = rateLimit c2)"
    by (rule Cons.IH [OF r t])
  show ?case
  proof (cases "\<exists>n. WithRateLimit n \<in> set opts")
    case True
    then show ?thesis using s ih by auto
  next
    case False
    then show ?thesis using s ih by (cases "\<exists>n. opt = WithRateLimit n") auto
  qed
qed

lemma NewClient_positive_rate:
  assumes "NewClient opts = Inr c" "rateLimit c > 0"
  shows "rateLimiter c \<noteq> None"
  using assms by (auto simp: NewClient_def split: sum.splits if_splits)

lemma NewClient_nonpositive_rate:
  assumes "NewClient opts = Inr c" "\<exists>n. WithRateLimit n \<in> set opts"
    and "\<forall>n. WithRateLimit n \<in> set opts \<longrightarrow> n \<le> 0"
  shows "rateLimiter c = None \<and> rateLimit c \<le> 0"
proof -
  from assms(1) obtain c1 where a: "applyOptions opts defaultClient = Inr c1"
    by (auto simp: NewClient_def split: sum.splits)
  have "rateLimiter c1 = rateLimiter defaultClient \<and> rateLimit c1 \<le> 0"
    using applyOptions_rate [OF a assms(3)] assms(2) by auto
  then have c1: "rateLimiter c1 = None" "rateLimit c1 \<le> 0"
    by (simp_all add: defaultClient_def)
  then have "c = c1" using assms(1) a by (simp add: NewClient_def)
  then show ?thesis using c1 by simp
qed

lemma doRequest_one_permit:
  assumes "bearerToken c \<noteq> []" "rateLimiter c \<noteq> None" "\<not> ctx_done e (clock w)"
  shows "\<exists>r w' rest. doRequest e c method url w = (r, w')
           \<and> trace w' = trace w @ Permit # rest \<and> (\<forall>ev\<in>set rest. \<not> isPermit ev)"
proof -
  have s: "doRequest e c method url w = retryLoop e c method url 0 None (started c w)"
    using assms by (intro doRequest_start) simp_all
  obtain rest where r: "trace (snd (retryLoop e c method url 0 None (started c w)))
                        = trace (started c w) @ rest" "\<forall>ev\<in>set rest. \<not> isPermit ev"
    using retryLoop_trace by blast
  have "trace (snd (doRequest e c method url w)) = trace w @ Permit # rest"
    using s r(1) assms(2) by (simp add: trace_started)
  then show ?thesis using r(2) by (metis prod.collapse)
qed

lemma doRequest_no_permit:
  assumes "bearerToken c \<noteq> []" "rateLimiter c = None"
  shows "\<exists>r w' rest. doRequest e c method url w = (r, w')
           \<and> trace w' = trace w @ rest \<and> (\<forall>ev\<in>set rest. \<not> isPermit ev)"
proof -
  have s: "doRequest e c method url w = retryLoop e c method url 0 None (started c w)"
    using assms by (intro doRequest_start) simp_all
  obtain rest where r: "trace (snd (retryLoop e c method url 0 None (started c w)))
                        = trace (started c w) @ rest" "\<forall>ev\<in>set rest. \<not> isPermit ev"
    using retryLoop_trace by blast
  have "trace (snd (doRequest e c method url w)) = trace w @ rest"
    using s r(1) assms(2) by (simp add: trace_started)
  then show ?thesis using r(2) by (metis prod.collapse)
qed

text \<open>
  Claim C3, as amended.  \<open>NewClient\<close> installs a limiter whenever the configured rate is
  positive, and installs none when the rate options given are all zero or negative.  A call
  of \<open>doRequest\<close> on a client with a limiter waits for one permit, before its first attempt:
  the trace of the call starts with that permit and holds no other, however many attempts
  follow; if the signal fires during that wait the call ends with the error of the context
  and sends nothing.  On a client without a limiter no permit is awaited.
\<close>

theorem permit_once_per_call:
  "(NewClient opts = Inr c0 \<and> rateLimit c0 > 0 \<longrightarrow> rateLimiter c0 \<noteq> None)
   \<and> (NewClient opts = Inr c0 \<and> (\<exists>n. WithRateLimit n \<in> set opts)
        \<and> (\<forall>n. WithRateLimit n \<in> set opts \<longrightarrow> n \<le> 0)
      \<longrightarrow> rateLimiter c0 = None \<and> rateLimit c0 \<le> 0)
   \<and> (bearerToken c \<noteq> [] \<and> rateLimiter c \<noteq> None \<and> \<not> ctx_done e (clock w)
      \<longrightarrow> (\<exists>r w' rest. doRequest e c method url w = (r, w')
             \<and> trace w' = trace w @ Permit # rest \<and> (\<forall>ev\<in>set rest. \<not> isPermit ev)))
   \<and> (bearerToken c \<noteq> [] \<and> rateLimiter c \<noteq> None \<and> ctx_done e (clock w)
      \<longrightarrow> doRequest e c method url w = (Inl ContextDone, w\<lparr>clock := Suc (clock w)\<rparr>))
   \<and> (bearerToken c \<noteq> [] \<and> rateLimiter c = None
      \<longrightarrow> (\<exists>r w' rest. doRequest e c method url w = (r, w')
             \<and> trace w' = trace w @ rest \<and> (\<forall>ev\<in>set rest. \<not> isPermit ev)))"
  using NewClient_positive_rate [of opts c0] NewClient_nonpositive_rate [of opts c0]
        doRequest_one_permit [of c e w "method" url]
        doRequest_permit_cancelled [of c e w "method" url]
        doRequest_no_permit [of c e "method" url w]
  by blast

lemma NewClient_limitedClient:
  "NewClient [WithAPIURL ''http://127.0.0.1/v3.0/'', WithBearerToken ''test-token'', WithMaxRetries 1]
     = Inr (limitedClient 1)"
  by (simp add: NewClient_def limitedClient_def testClient_def defaultClient_def
      DefaultRateLimit_def NewTicker_def Second_def TrimRight_def)

text \<open>
  The claim as stated fails: the client of the tests, with one retry and a server that
  answers 503, sends two requests and has waited for one permit only, before the first.
\<close>

theorem permit_not_reacquired:
  "NewClient [WithAPIURL ''http://127.0.0.1/v3.0/'', WithBearerToken ''test-token'', WithMaxRetries 1]
     = Inr (limitedClient 1)
   \<and> rateLimit (limitedClient 1) = 10
   \<and> trace (snd (doRequest (quietEnv (alwaysStatus 503 ''503 Service Unavailable'' []))
                   (limitedClient 1) ''GET'' recordURL world0))
     = [Permit, Send (newRequest (limitedClient 1) ''GET'' recordURL), Backoff Second,
        Send (newRequest (limitedClient 1) ''GET'' recordURL)]
   \<and> sends (snd (doRequest (quietEnv (alwaysStatus 503 ''503 Service Unavailable'' []))
                   (limitedClient 1) ''GET'' recordURL world0)) = 2
   \<and> length (filter isPermit
        (trace (snd (doRequest (quietEnv (alwaysStatus 503 ''503 Service Unavailable'' []))
                       (limitedClient 1) ''GET'' recordURL world0)))) = 1"
proof -
  have t: "trace (snd (doRequest (quietEnv (alwaysStatus 503 ''503 Service Unavailable'' []))
                   (limitedClient 1) ''GET'' recordURL world0))
     = [Permit, Send (newRequest (limitedClient 1) ''GET'' recordURL), Backoff Second,
        Send (newRequest (limitedClient 1) ''GET'' recordURL)]"
    by code_simp
  have r: "rateLimit (limitedClient 1) = 10"
    by (simp add: limitedClient_def testClient_def defaultClient_def DefaultRateLimit_def)
  show ?thesis using NewClient_limitedClient r by (simp add: t sends_def)
qed

text \<open>
  A rate of zero given after a positive one does not remove the limiter: \<open>WithRateLimit\<close>
  installs a ticker for a positive rate and leaves the ticker alone otherwise.
\<close>

lemma zero_rate_after_positive_keeps_limiter:
  "NewClient [WithRateLimit 5, WithRateLimit 0]
     = Inr (defaultClient\<lparr>rateLimit := 0, rateLimiter := Some \<lparr>period = 200000000\<rparr>\<rparr>)"
  by (simp add: NewClient_def defaultClient_def NewTicker_def Second_def)

theorem permit_once_per_call_witness:
  "rateLimiter (limitedClient 1) \<noteq> None
   \<and> (\<exists>r w' rest. doRequest (quietEnv (alwaysStatus 503 ''503 Service Unavailable'' []))
                     (limitedClient 1) ''GET'' recordURL world0 = (r, w')
         \<and> trace w' = Permit # rest \<and> length (filter isPermit rest) = 0)
   \<and> doRequest (cancelledFrom 0 (alwaysStatus 503 ''503 Service Unavailable'' []))
        (limitedClient 1) ''GET'' recordURL world0 = (Inl ContextDone, world0\<lparr>clock := 1\<rparr>)
   \<and> NewClient [WithRateLimit 0] = Inr (defaultClient\<lparr>rateLimit := 0\<rparr>)
   \<and> rateLimiter (defaultClient\<lparr>rateLimit := 0\<rparr>) = None
   \<and> (\<exists>r w' rest. doRequest (quietEnv (alwaysStatus 503 ''503 Service Unavailable'' []))
                     (testClient 1) ''GET'' recordURL world0 = (r, w')
         \<and> trace w' = rest \<and> length (filter isPermit rest) = 0)"
proof -
  let ?e = "quietEnv (alwaysStatus 503 ''503 Service Unavailable'' [])"
  let ?x = "cancelledFrom 0 (alwaysStatus 503 ''503 Service Unavailable'' [])"
  let ?opts = "[WithAPIURL ''http://127.0.0.1/v3.0/'', WithBearerToken ''test-token'', WithMaxRetries 1]"
  have c: "bearerToken (limitedClient 1) \<noteq> []" "rateLimit (limitedClient 1) > 0"
          "bearerToken (testClient 1) \<noteq> []" "rateLimiter (testClient 1) = None"
    by (simp_all add: limitedClient_def testClient_def defaultClient_def DefaultRateLimit_def)
  have q: "\<not> ctx_done ?e (clock world0)" "ctx_done ?x (clock world0)" "clock world0 = 0"
          "trace world0 = []"
    by (simp_all add: quietEnv_def cancelledFrom_def world0_def)
  have z: "NewClient [WithRateLimit 0] = Inr (defaultClient\<lparr>rateLimit := 0\<rparr>)"
    by (simp add: NewClient_def)
  have np: "\<And>rest. (\<forall>ev\<in>set rest. \<not> isPermit ev) \<Longrightarrow> length (filter isPermit rest) = 0"
    by (simp add: filter_empty_conv)
  have L: "rateLimiter (limitedClient 1) \<noteq> None"
    using permit_once_per_call [of ?opts "limitedClient 1", THEN conjunct1]
          NewClient_limitedClient c(2) by blast
  have A: "\<exists>r w' rest. doRequest ?e (limitedClient 1) ''GET'' recordURL world0 = (r, w')
         \<and> trace w' = Permit # rest \<and> length (filter isPermit rest) = 0"
    using permit_once_per_call [of _ _ "limitedClient 1" ?e world0 "''GET''" recordURL,
            THEN conjunct2, THEN conjunct2, THEN conjunct1] c(1) L q np
    by (metis append_Nil)
  have B: "doRequest ?x (limitedClient 1) ''GET'' recordURL world0
           = (Inl ContextDone, world0\<lparr>clock := 1\<rparr>)"
    using permit_once_per_call [of _ _ "limitedClient 1" ?x world0 "''GET''" recordURL,
            THEN conjunct2, THEN conjunct2, THEN conjunct2, THEN conjunct1] c(1) L q
    by simp
  have Z: "rateLimiter (defaultClient\<lparr>rateLimit := 0\<rparr>) = None"
    using permit_once_per_call [of "[WithRateLimit 0]" "defaultClient\<lparr>rateLimit := 0\<rparr>",
            THEN conjunct2, THEN conjunct1] z
    by simp
  have N: "\<exists>r w' rest. doRequest ?e (testClient 1) ''GET'' recordURL world0 = (r, w')
         \<and> trace w' = rest \<and> length (filter isPermit rest) = 0"
    using permit_once_per_call [of _ _ "testClient 1" ?e world0 "''GET''" recordURL,
            THEN conjunct2, THEN conjunct2, THEN conjunct2, THEN conjunct2] c(3,4) q np
    by (metis append_Nil)
  show ?thesis using L A B z Z N by blast
qed

section \<open>Properties of the search iterator\<close>









lemma wrapInt_in_range:
  "- 9223372036854775808 \<le> x \<Longrightarrow> x \<le> 9223372036854775807 \<Longrightarrow> wrapInt x = x"
  by (simp add: wrapInt_def)

lemma addInt_in_range:
  "- 9223372036854775808 \<le> a + b \<Longrightarrow> a + b \<le> 9223372036854775807 \<Longrightarrow> addInt a b = a + b"
  by (simp add: addInt_def wrapInt_in_range)

lemma addInt_wraps: "addInt 9223372036854775800 10 = - 9223372036854775806"
  by (simp add: addInt_def wrapInt_def)

lemma fetchBatch_empty:
  "Search e (client si) (params si) w = (Inr result, w1) \<Longrightarrow> Results result = [] \<Longrightarrow>
   fetchBatch e si w
     = (False, si\<lparr>currentBatch := Some result, totalResults := NumFound result,
                   currentIndex := - 1\<rparr>, w1)"
  by (simp add: fetchBatch_def)

lemma Next_fresh:
  "\<not> ctx_done e (clock w) \<Longrightarrow>
   Next e (SearchIter c sp) w = fetchBatch e (SearchIter c sp) (w\<lparr>clock := Suc (clock w)\<rparr>)"
  by (simp add: Next_def SearchIter_def selectDone_def)

text \<open>The rule of \<open>Next\<close> at the end of a page, in Go's arithmetic.\<close>

lemma Next_at_end:
  assumes "err si = None" "\<not> ctx_done e (clock w)" "currentBatch si = Some b"
    and "currentIndex si \<ge> int (length (Results b)) - 1"
  shows "Next e si w =
     (if addInt (Start (params si)) (Rows (params si)) \<ge> totalResults si
      then (False, si, w\<lparr>clock := Suc (clock w)\<rparr>)
      else fetchBatch e
             (si\<lparr>params := (params si)\<lparr>Start := addInt (Start (params si)) (Rows (params si))\<rparr>\<rparr>)
             (w\<lparr>clock := Suc (clock w)\<rparr>))"
  using assms by (simp add: Next_def selectDone_def)

lemma Next_within:
  assumes "err si = None" "\<not> ctx_done e (clock w)" "currentBatch si = Some b"
    and "currentIndex si < int (length (Results b)) - 1"
  shows "Next e si w = (True, si\<lparr>currentIndex := currentIndex si + 1\<rparr>, w\<lparr>clock := Suc (clock w)\<rparr>)"
  using assms by (simp add: Next_def selectDone_def advanceIndex_def Let_def)

text \<open>
  Claim C8, as amended.  When the page just fetched holds no item, that call of \<open>Next\<close>
  returns false and records no error; the empty page becomes the current batch.  So for a
  first page that comes back empty, whatever total it reports: the caller's loop yields no
  record and stops, and the world it leaves is the world after that one search call (after
  the poll of the context), so one page has been fetched.  The same holds for an empty page
  fetched later.  Nothing is said of calls that follow the one that returned false: the
  iterator keeps no mark of being exhausted.
\<close>

theorem empty_page_ends_iteration:
  "(Search e (client si) (params si) w = (Inr result, w1) \<and> Results result = [] \<longrightarrow>
      fetchBatch e si w
        = (False, si\<lparr>currentBatch := Some result, totalResults := NumFound result,
                      currentIndex := - 1\<rparr>, w1))
   \<and> (\<not> ctx_done e (clock w)
       \<and> Search e c sp (w\<lparr>clock := Suc (clock w)\<rparr>) = (Inr result, w1) \<and> Results result = [] \<longrightarrow>
      Next e (SearchIter c sp) w
        = (False, (SearchIter c sp)\<lparr>currentBatch := Some result,
                                    totalResults := NumFound result\<rparr>, w1)
      \<and> drain (Suc fuel) e (SearchIter c sp) w
        = Some ([], (SearchIter c sp)\<lparr>currentBatch := Some result,
                                      totalResults := NumFound result\<rparr>, w1))
   \<and> (err si = None \<and> \<not> ctx_done e (clock w) \<and> currentBatch si = Some b
       \<and> currentIndex si \<ge> int (length (Results b)) - 1
       \<and> addInt (Start (params si)) (Rows (params si)) < totalResults si
       \<and> Search e (client si)
            ((params si)\<lparr>Start := addInt (Start (params si)) (Rows (params si))\<rparr>)
            (w\<lparr>clock := Suc (clock w)\<rparr>) = (Inr result, w1)
       \<and> Results result = [] \<longrightarrow>
      Next e si w
        = (False,
           si\<lparr>params := (params si)\<lparr>Start := addInt (Start (params si)) (Rows (params si))\<rparr>,
              currentBatch := Some result, totalResults := NumFound result,
              currentIndex := - 1\<rparr>, w1))"
proof (intro conjI impI)
  assume "Search e (client si) (params si) w = (Inr result, w1) \<and> Results result = []"
  then show "fetchBatch e si w
        = (False, si\<lparr>currentBatch := Some result, totalResults := NumFound result,
                      currentIndex := - 1\<rparr>, w1)"
    by (simp add: fetchBatch_empty)
next
  assume h: "\<not> ctx_done e (clock w)
       \<and> Search e c sp (w\<lparr>clock := Suc (clock w)\<rparr>) = (Inr result, w1) \<and> Results result = []"
  have s: "Search e (client (SearchIter c sp)) (params (SearchIter c sp)) (w\<lparr>clock := Suc (clock w)\<rparr>)
           = (Inr result, w1)"
    using h by (simp add: SearchIter_def)
  have n: "Next e (SearchIter c sp) w
        = (False, (SearchIter c sp)\<lparr>currentBatch := Some result,
                                    totalResults := NumFound result\<rparr>, w1)"
    using h Next_fresh [of e w c sp] fetchBatch_empty [OF s]
    by (simp add: SearchIter_def)
  show "Next e (SearchIter c sp) w
        = (False, (SearchIter c sp)\<lparr>currentBatch := Some result,
                                    totalResults := NumFound result\<rparr>, w1)"
    by (rule n)
  show "drain (Suc fuel) e (SearchIter c sp) w
        = Some ([], (SearchIter c sp)\<lparr>currentBatch := Some result,
                                      totalResults := NumFound result\<rparr>, w1)"
    by (simp add: n)
next
  assume h: "err si = None \<and> \<not> ctx_done e (clock w) \<and> currentBatch si = Some b
       \<and> currentIndex si \<ge> int (length (Results b)) - 1
       \<and> addInt (Start (params si)) (Rows (params si)) < totalResults si
       \<and> Search e (client si)
            ((params si)\<lparr>Start := addInt (Start (params si)) (Rows (params si))\<rparr>)
            (w\<lparr>clock := Suc (clock w)\<rparr>) = (Inr result, w1)
       \<and> Results result = []"
  let ?si = "si\<lparr>params := (params si)\<lparr>Start := addInt (Start (params si)) (Rows (params si))\<rparr>\<rparr>"
  have s: "Search e (client ?si) (params ?si) (w\<lparr>clock := Suc (clock w)\<rparr>) = (Inr result, w1)"
    using h by simp
  have "Next e si w = fetchBatch e ?si (w\<lparr>clock := Suc (clock w)\<rparr>)"
    using h Next_at_end [of si e w b] by simp
  then show "Next e si w
        = (False,
           si\<lparr>params := (params si)\<lparr>Start := addInt (Start (params si)) (Rows (params si))\<rparr>,
              currentBatch := Some result, totalResults := NumFound result,
              currentIndex := - 1\<rparr>, w1)"
    using fetchBatch_empty [OF s] h by simp
qed

text \<open>
  The claim as stated fails: after an empty first page that reports 25 results the iterator
  is not exhausted.  A second call of \<open>Next\<close> finds \<open>0 + 10 < 25\<close>, fetches the page at
  offset 10 and returns true; the five calls return false, true, true, true, false and send
  three requests.
\<close>

theorem empty_page_not_exhausted:
  "fst (Nexts 5 emptyFirstEnv (SearchIter (testClient 3) testParams) world0)
     = [False, True, True, True, False]
   \<and> trace (snd (snd (Nexts 5 emptyFirstEnv (SearchIter (testClient 3) testParams) world0)))
     = [Send (searchRequest ''q=test&rows=10''),
        Send (searchRequest ''q=test&rows=10&start=10''),
        Send (searchRequest ''q=test&rows=10&start=20'')]
   \<and> Error (fst (snd (Nexts 5 emptyFirstEnv (SearchIter (testClient 3) testParams) world0)))
     = None"
  by code_simp

theorem empty_page_ends_iteration_witness:
  "drain 5 (emptyPageEnv 100) (SearchIter (testClient 3) testParams) world0
     = Some ([], (SearchIter (testClient 3) testParams)
                   \<lparr>currentBatch := Some (emptyPage 100), totalResults := 100\<rparr>,
             \<lparr>clock = 1, trace = [Send (searchRequest ''q=test&rows=10'')]\<rparr>)
   \<and> drain 5 (emptyPageEnv 0) (SearchIter (testClient 3) testParams) world0
     = Some ([], (SearchIter (testClient 3) testParams)
                   \<lparr>currentBatch := Some (emptyPage 0), totalResults := 0\<rparr>,
             \<lparr>clock = 1, trace = [Send (searchRequest ''q=test&rows=10'')]\<rparr>)
   \<and> sends \<lparr>clock = 1, trace = [Send (searchRequest ''q=test&rows=10'')]\<rparr> = 1"
proof -
  let ?w1 = "\<lparr>clock = 1, trace = [Send (searchRequest ''q=test&rows=10'')]\<rparr>"
  have s: "Search (emptyPageEnv 100) (testClient 3) testParams (world0\<lparr>clock := Suc (clock world0)\<rparr>)
           = (Inr (emptyPage 100), ?w1)"
          "Search (emptyPageEnv 0) (testClient 3) testParams (world0\<lparr>clock := Suc (clock world0)\<rparr>)
           = (Inr (emptyPage 0), ?w1)"
    by code_simp+
  have c: "\<And>n. \<not> ctx_done (emptyPageEnv n) (clock world0)" "\<And>n. Results (emptyPage n) = []"
          "\<And>n. NumFound (emptyPage n) = n"
    by (simp_all add: emptyPageEnv_def quietEnv_def emptyPage_def)
  have A: "drain 5 (emptyPageEnv 100) (SearchIter (testClient 3) testParams) world0
     = Some ([], (SearchIter (testClient 3) testParams)
                   \<lparr>currentBatch := Some (emptyPage 100), totalResults := 100\<rparr>, ?w1)"
    using empty_page_ends_iteration
            [where e = "emptyPageEnv 100" and w = world0 and c = "testClient 3" and sp = testParams
                and result = "emptyPage 100" and ?w1.0 = ?w1 and fuel = 4,
             THEN conjunct2, THEN conjunct1] s(1) c
    by (simp add: eval_nat_numeral)
  have B: "drain 5 (emptyPageEnv 0) (SearchIter (testClient 3) testParams) world0
     = Some ([], (SearchIter (testClient 3) testParams)
                   \<lparr>currentBatch := Some (emptyPage 0), totalResults := 0\<rparr>, ?w1)"
    using empty_page_ends_iteration
            [where e = "emptyPageEnv 0" and w = world0 and c = "testClient 3" and sp = testParams
                and result = "emptyPage 0" and ?w1.0 = ?w1 and fuel = 4,
             THEN conjunct2, THEN conjunct1] s(2) c
    by (simp add: eval_nat_numeral)
  have C: "sends ?w1 = 1" by (simp add: sends_def)
  show ?thesis using A B C by blast
qed


lemma fetchBatch_world:
  "snd (snd (fetchBatch e si w)) = snd (Search e (client si) (params si) w)"
  by (auto simp: fetchBatch_def advanceIndex_def Let_def split: prod.splits sum.splits)

text \<open>
  The iterator test of the repository: five records, three requests, for the offsets 0, 10
  and 20, \<open>TotalResults\<close> reading 25 at each record and after the loop; a further \<open>Next\<close>
  returns false and sends nothing.
\<close>

lemma paged_scenario:
  "(case drain 10 pagedEnv (SearchIter (testClient 3) testParams) world0 of
      None \<Rightarrow> False
    | Some (items, si1, w1) \<Rightarrow>
        items = [(searchRecord ''0000-0000-0000-0001'', 25),
                 (searchRecord ''0000-0000-0000-0002'', 25),
                 (searchRecord ''0000-0000-0000-0003'', 25),
                 (searchRecord ''0000-0000-0000-0004'', 25),
                 (searchRecord ''0000-0000-0000-0005'', 25)]
        \<and> trace w1 = [Send (searchRequest ''q=test&rows=10''),
                      Send (searchRequest ''q=test&rows=10&start=10''),
                      Send (searchRequest ''q=test&rows=10&start=20'')]
        \<and> sends w1 = 3
        \<and> TotalResults si1 = 25
        \<and> Error si1 = None
        \<and> fst (Next pagedEnv si1 w1) = False
        \<and> sends (snd (snd (Next pagedEnv si1 w1))) = 3)"
  by code_simp

text \<open>
  Claim C6, as amended.  When the iterator has a current page, no error, and the context is
  not cancelled: while the index is short of the last item of the page, \<open>Next\<close> steps to the
  following item and fetches nothing.  At the end of the page, for a positive \<open>Rows\<close> (which
  is then the page size that the URL requests) and a sum \<open>Start + Rows\<close> that fits the 64
  bits of an \<open>int\<close>, it compares \<open>Start + Rows\<close>, with the requested \<open>Rows\<close> and not the
  number of items of the page, with the total the server reported: if the sum reaches the
  total it returns false and fetches nothing; if the sum is below the total it moves
  \<open>Start\<close> forward by \<open>Rows\<close> and then fetches, with one \<open>Search\<close> call at the new offset.
  For the server of the repository's test (25 results reported; two, two and one records at
  the offsets 0, 10 and 20) and \<open>rows = 10\<close>, the caller's loop yields the five records,
  \<open>TotalResults\<close> reading 25 at each of them and at the end, with three requests, for the
  offsets 0, 10 and 20; a further \<open>Next\<close> returns false and sends nothing.
\<close>

theorem next_page_condition:
  "(err si = None \<and> \<not> ctx_done e (clock w) \<and> currentBatch si = Some b \<longrightarrow>
      (currentIndex si < int (length (Results b)) - 1 \<longrightarrow>
         Next e si w
           = (True, si\<lparr>currentIndex := currentIndex si + 1\<rparr>, w\<lparr>clock := Suc (clock w)\<rparr>))
      \<and> (currentIndex si \<ge> int (length (Results b)) - 1
          \<and> 0 < Rows (params si)
          \<and> - 9223372036854775808 \<le> Start (params si) + Rows (params si)
          \<and> Start (params si) + Rows (params si) \<le> 9223372036854775807 \<longrightarrow>
         Get (searchValues (params si)) ''rows'' = Some [Sprintf_d (Rows (params si))]
         \<and> (Start (params si) + Rows (params si) \<ge> totalResults si \<longrightarrow>
              Next e si w = (False, si, w\<lparr>clock := Suc (clock w)\<rparr>))
         \<and> (Start (params si) + Rows (params si) < totalResults si \<longrightarrow>
              Next e si w
                = fetchBatch e
                    (si\<lparr>params := (params si)\<lparr>Start := Start (params si) + Rows (params si)\<rparr>\<rparr>)
                    (w\<lparr>clock := Suc (clock w)\<rparr>)
              \<and> snd (snd (Next e si w))
                = snd (Search e (client si)
                         ((params si)\<lparr>Start := Start (params si) + Rows (params si)\<rparr>)
                         (w\<lparr>clock := Suc (clock w)\<rparr>)))))
   \<and> (case drain 10 pagedEnv (SearchIter (testClient 3) testParams) world0 of
        None \<Rightarrow> False
      | Some (items, si1, w1) \<Rightarrow>
          items = [(searchRecord ''0000-0000-0000-0001'', 25),
                   (searchRecord ''0000-0000-0000-0002'', 25),
                   (searchRecord ''0000-0000-0000-0003'', 25),
                   (searchRecord ''0000-0000-0000-0004'', 25),
                   (searchRecord ''0000-0000-0000-0005'', 25)]
          \<and> trace w1 = [Send (searchRequest ''q=test&rows=10''),
                        Send (searchRequest ''q=test&rows=10&start=10''),
                        Send (searchRequest ''q=test&rows=10&start=20'')]
          \<and> sends w1 = 3
          \<and> TotalResults si1 = 25
          \<and> Error si1 = None
          \<and> fst (Next pagedEnv si1 w1) = False
          \<and> sends (snd (snd (Next pagedEnv si1 w1))) = 3)"
proof -
  have within: "err si = None \<and> \<not> ctx_done e (clock w) \<and> currentBatch si = Some b \<longrightarrow>
      (currentIndex si < int (length (Results b)) - 1 \<longrightarrow>
         Next e si w
           = (True, si\<lparr>currentIndex := currentIndex si + 1\<rparr>, w\<lparr>clock := Suc (clock w)\<rparr>))"
    using Next_within [of si e w b] by blast
  have rows: "0 < Rows (params si) \<longrightarrow>
      Get (searchValues (params si)) ''rows'' = Some [Sprintf_d (Rows (params si))]"
    by (simp add: searchValues_def Let_def)
  have at_end: "err si = None \<and> \<not> ctx_done e (clock w) \<and> currentBatch si = Some b
      \<and> currentIndex si \<ge> int (length (Results b)) - 1
      \<and> - 9223372036854775808 \<le> Start (params si) + Rows (params si)
      \<and> Start (params si) + Rows (params si) \<le> 9223372036854775807 \<longrightarrow>
         (Start (params si) + Rows (params si) \<ge> totalResults si \<longrightarrow>
              Next e si w = (False, si, w\<lparr>clock := Suc (clock w)\<rparr>))
         \<and> (Start (params si) + Rows (params si) < totalResults si \<longrightarrow>
              Next e si w
                = fetchBatch e
                    (si\<lparr>params := (params si)\<lparr>Start := Start (params si) + Rows (params si)\<rparr>\<rparr>)
                    (w\<lparr>clock := Suc (clock w)\<rparr>)
              \<and> snd (snd (Next e si w))
                = snd (Search e (client si)
                         ((params si)\<lparr>Start := Start (params si) + Rows (params si)\<rparr>)
                         (w\<lparr>clock := Suc (clock w)\<rparr>)))"
  proof (intro impI)
    assume h: "err si = None \<and> \<not> ctx_done e (clock w) \<and> currentBatch si = Some b
      \<and> currentIndex si \<ge> int (length (Results b)) - 1
      \<and> - 9223372036854775808 \<le> Start (params si) + Rows (params si)
      \<and> Start (params si) + Rows (params si) \<le> 9223372036854775807"
    have a: "addInt (Start (params si)) (Rows (params si)) = Start (params si) + Rows (params si)"
      using h by (simp add: addInt_in_range)
    have n: "Next e si w =
       (if Start (params si) + Rows (params si) \<ge> totalResults si
        then (False, si, w\<lparr>clock := Suc (clock w)\<rparr>)
        else fetchBatch e
               (si\<lparr>params := (params si)\<lparr>Start := Start (params si) + Rows (params si)\<rparr>\<rparr>)
               (w\<lparr>clock := Suc (clock w)\<rparr>))"
      using h Next_at_end [of si e w b] unfolding a by blast
    show "(Start (params si) + Rows (params si) \<ge> totalResults si \<longrightarrow>
              Next e si w = (False, si, w\<lparr>clock := Suc (clock w)\<rparr>))
         \<and> (Start (params si) + Rows (params si) < totalResults si \<longrightarrow>
              Next e si w
                = fetchBatch e
                    (si\<lparr>params := (params si)\<lparr>Start := Start (params si) + Rows (params si)\<rparr>\<rparr>)
                    (w\<lparr>clock := Suc (clock w)\<rparr>)
              \<and> snd (snd (Next e si w))
                = snd (Search e (client si)
                         ((params si)\<lparr>Start := Start (params si) + Rows (params si)\<rparr>)
                         (w\<lparr>clock := Suc (clock w)\<rparr>)))"
      unfolding n by (simp add: fetchBatch_world)
  qed
  show ?thesis using within rows at_end paged_scenario by blast
qed

theorem next_page_condition_witness:
  "Next pagedEnv
     ((SearchIter (testClient 3) testParams)
        \<lparr>currentBatch := Some (pageAt 0), currentIndex := 0, totalResults := 25\<rparr>) world0
     = (True,
        (SearchIter (testClient 3) testParams)
          \<lparr>currentBatch := Some (pageAt 0), currentIndex := 1, totalResults := 25\<rparr>,
        world0\<lparr>clock := 1\<rparr>)
   \<and> Next pagedEnv
     ((SearchIter (testClient 3) testParams)
        \<lparr>currentBatch := Some (pageAt 0), currentIndex := 1, totalResults := 25\<rparr>) world0
     = fetchBatch pagedEnv
         ((SearchIter (testClient 3) testParams)
            \<lparr>params := testParams\<lparr>Start := 10\<rparr>, currentBatch := Some (pageAt 0),
             currentIndex := 1, totalResults := 25\<rparr>)
         (world0\<lparr>clock := 1\<rparr>)
   \<and> Next pagedEnv
     ((SearchIter (testClient 3) testParams)
        \<lparr>params := testParams\<lparr>Start := 20\<rparr>, currentBatch := Some (pageAt 20),
         currentIndex := 0, totalResults := 25\<rparr>) world0
     = (False,
        (SearchIter (testClient 3) testParams)
          \<lparr>params := testParams\<lparr>Start := 20\<rparr>, currentBatch := Some (pageAt 20),
           currentIndex := 0, totalResults := 25\<rparr>,
        world0\<lparr>clock := 1\<rparr>)"
proof -
  let ?a = "(SearchIter (testClient 3) testParams)
        \<lparr>currentBatch := Some (pageAt 0), currentIndex := 0, totalResults := 25\<rparr>"
  let ?b = "(SearchIter (testClient 3) testParams)
        \<lparr>currentBatch := Some (pageAt 0), currentIndex := 1, totalResults := 25\<rparr>"
  let ?c = "(SearchIter (testClient 3) testParams)
        \<lparr>params := testParams\<lparr>Start := 20\<rparr>, currentBatch := Some (pageAt 20),
         currentIndex := 0, totalResults := 25\<rparr>"
  have q: "\<not> ctx_done pagedEnv (clock world0)" "clock world0 = 0"
    by (simp_all add: pagedEnv_def quietEnv_def world0_def)
  have p: "length (Results (pageAt 0)) = 2" "length (Results (pageAt 20)) = 1"
    by (simp_all add: pageAt_def)
  have A: "Next pagedEnv ?a world0 = (True, ?b, world0\<lparr>clock := 1\<rparr>)"
    using next_page_condition [of ?a pagedEnv world0 "pageAt 0", THEN conjunct1] q p
    by (simp add: SearchIter_def)
  have B: "Next pagedEnv ?b world0
         = fetchBatch pagedEnv
             ((SearchIter (testClient 3) testParams)
                \<lparr>params := testParams\<lparr>Start := 10\<rparr>, currentBatch := Some (pageAt 0),
                 currentIndex := 1, totalResults := 25\<rparr>)
             (world0\<lparr>clock := 1\<rparr>)"
    using next_page_condition [of ?b pagedEnv world0 "pageAt 0", THEN conjunct1] q p
    by (simp add: SearchIter_def testParams_def)
  have C: "Next pagedEnv ?c world0 = (False, ?c, world0\<lparr>clock := 1\<rparr>)"
    using next_page_condition [of ?c pagedEnv world0 "pageAt 20", THEN conjunct1] q p
    by (simp add: SearchIter_def testParams_def)
  show ?thesis using A B C by blast
qed

text \<open>
  The evaluation of a search that starts at offset 9223372036854775800 with \<open>rows = 10\<close>:
  the decimal form of the offset, the URL, and the first call of \<open>Next\<close>, which sends the
  request and receives the one record of the page at offset 20 or more with a total of 25.
\<close>

lemma digitChars:
  "digitChar 0 = CHR ''0''" "digitChar 1 = CHR ''1''" "digitChar 2 = CHR ''2''"
  "digitChar 3 = CHR ''3''" "digitChar 4 = CHR ''4''" "digitChar 5 = CHR ''5''"
  "digitChar 6 = CHR ''6''" "digitChar 7 = CHR ''7''" "digitChar 8 = CHR ''8''"
  "digitChar 9 = CHR ''9''"
  by code_simp+

lemma Sprintf_d_huge: "Sprintf_d 9223372036854775800 = ''9223372036854775800''"
  by (simp add: Sprintf_d_def digits.simps digitChars)

lemma hugeStart_url:
  "buildSearchURL (testClient 3) hugeStartParams
     = ''http://127.0.0.1/v3.0/search?q=test&rows=10&start=9223372036854775800''"
proof -
  have q: "QueryEscape ''test'' = ''test''" by code_simp
  have d: "Sprintf_d 10 = ''10''" by code_simp
  have h: "QueryEscape ''9223372036854775800'' = ''9223372036854775800''" by code_simp
  show ?thesis
    by (simp add: url_simps hugeStartParams_def testClient_def q d h Sprintf_d_huge)
qed

lemma hugeStart_first_Next:
  "Next pagedEnv (SearchIter (testClient 3) hugeStartParams) world0
     = (True, hugeStartIterator,
        \<lparr>clock = 1,
           trace = [Send (searchRequest ''q=test&rows=10&start=9223372036854775800'')]\<rparr>)"
proof -
  let ?u = "''http://127.0.0.1/v3.0/search?q=test&rows=10&start=9223372036854775800''"
  let ?w = "\<lparr>clock = 1, trace = []\<rparr>"
  have r: "retryLoop pagedEnv (testClient 3) ''GET'' ?u 0 None ?w
           = (Inr (response 200 ''200 OK'' ''page at 20''),
              \<lparr>clock = 1, trace = [Send (newRequest (testClient 3) ''GET'' ?u)]\<rparr>)"
    by (subst retryLoop.simps)
       (simp add: pagedEnv_def quietEnv_def pagedServer_def Do_def sends_def emit_def
          newRequest_def testClient_def defaultClient_def response_def)
  have s: "Search pagedEnv (testClient 3) hugeStartParams ?w
           = (Inr (pageAt 20), \<lparr>clock = 1, trace = [Send (newRequest (testClient 3) ''GET'' ?u)]\<rparr>)"
    unfolding Search_def hugeStart_url Let_def doRequest_def
    using r
    by (simp add: testClient_def defaultClient_def ReadAll_def response_def unmarshalResponse_def
          ContentTypeJSON_def pagedEnv_def quietEnv_def pagedDecoder_def)
  show ?thesis
    using s
    by (simp add: Next_def SearchIter_def selectDone_def pagedEnv_def quietEnv_def world0_def
          fetchBatch_def advanceIndex_def Let_def hugeStartIterator_def pageAt_def
          searchRequest_def)
qed

lemma hugeStart_second_Next:
  "fst (Next pagedEnv hugeStartIterator
          \<lparr>clock = 1,
             trace = [Send (searchRequest ''q=test&rows=10&start=9223372036854775800'')]\<rparr>)
     = True
   \<and> trace (snd (snd (Next pagedEnv hugeStartIterator
          \<lparr>clock = 1,
             trace = [Send (searchRequest ''q=test&rows=10&start=9223372036854775800'')]\<rparr>)))
     = [Send (searchRequest ''q=test&rows=10&start=9223372036854775800''),
        Send (searchRequest ''q=test&rows=10'')]
   \<and> Start (params (fst (snd (Next pagedEnv hugeStartIterator
          \<lparr>clock = 1,
             trace = [Send (searchRequest ''q=test&rows=10&start=9223372036854775800'')]\<rparr>))))
     = - 9223372036854775806
   \<and> totalResults hugeStartIterator = 25
   \<and> \<not> (Start hugeStartParams + Rows hugeStartParams < 25)"
  by code_simp

text \<open>
  The claim as stated, with the sum \<open>Start + Rows\<close> of the integers, fails where the sum
  leaves the range of an \<open>int\<close>.  A search that starts at offset 9223372036854775800 with
  \<open>rows = 10\<close> receives one record and a total of 25; at the end of that page \<open>Start + Rows\<close>
  is 9223372036854775810, not below 25, but Go's sum is -9223372036854775806: \<open>Next\<close> moves
  \<open>Start\<close> there, fetches again (the URL then carries no \<open>start\<close>) and returns true.
\<close>

theorem next_page_fetched_beyond_total:
  "fst (Nexts 2 pagedEnv (SearchIter (testClient 3) hugeStartParams) world0) = [True, True]
   \<and> totalResults (fst (snd (Nexts 1 pagedEnv (SearchIter (testClient 3) hugeStartParams) world0)))
     = 25
   \<and> \<not> (Start hugeStartParams + Rows hugeStartParams < 25)
   \<and> trace (snd (snd (Nexts 2 pagedEnv (SearchIter (testClient 3) hugeStartParams) world0)))
     = [Send (searchRequest ''q=test&rows=10&start=9223372036854775800''),
        Send (searchRequest ''q=test&rows=10'')]
   \<and> Start (params (fst (snd (Nexts 2 pagedEnv (SearchIter (testClient 3) hugeStartParams) world0))))
     = - 9223372036854775806"
proof -
  let ?w = "\<lparr>clock = 1,
             trace = [Send (searchRequest ''q=test&rows=10&start=9223372036854775800'')]\<rparr>"
  have one: "Nexts 1 pagedEnv (SearchIter (testClient 3) hugeStartParams) world0
             = ([True], hugeStartIterator, ?w)"
    by (simp add: hugeStart_first_Next)
  have two: "Nexts 2 pagedEnv (SearchIter (testClient 3) hugeStartParams) world0
             = ([True, fst (Next pagedEnv hugeStartIterator ?w)],
                snd (Next pagedEnv hugeStartIterator ?w))"
    by (simp add: numeral_2_eq_2 hugeStart_first_Next case_prod_beta)
  show ?thesis
    unfolding one two using hugeStart_second_Next by simp
qed

text \<open>
  With \<open>Rows\<close> left at 0 the URL asks for the default of 10 rows, while \<open>Next\<close> adds the 0 of
  the field: at the end of the page \<open>Start\<close> stays where it is and the same page is fetched
  again, for as long as the caller goes on.
\<close>

lemma zero_rows_fetches_same_page_again:
  "fst (Nexts 6 pagedEnv (SearchIter (testClient 3) zeroRowsParams) world0)
     = [True, True, True, True, True, True]
   \<and> trace (snd (snd (Nexts 6 pagedEnv (SearchIter (testClient 3) zeroRowsParams) world0)))
     = [Send (searchRequest ''q=test&rows=10''), Send (searchRequest ''q=test&rows=10''),
        Send (searchRequest ''q=test&rows=10'')]
   \<and> Start (params (fst (snd (Nexts 6 pagedEnv (SearchIter (testClient 3) zeroRowsParams) world0))))
     = 0
   \<and> drain 40 pagedEnv (SearchIter (testClient 3) zeroRowsParams) world0 = None"
  by code_simp

end
